theory Spec2Isabelle
  imports Main "HOL-Library.Word" "HOL-Library.Log_Nat" "HOL-Library.Sublist"
begin

section \<open>JavaScript strings\<close>

text \<open>
  A JavaScript string is a sequence of 16-bit UTF-16 code units. \<open>js\<close> turns an ASCII
  literal of the source into that representation.
\<close>

type_synonym code_unit = "16 word"
type_synonym jsstring = "code_unit list"

definition js :: "string \<Rightarrow> jsstring" where
  "js s = map of_char s"

text \<open>
  \<open>String.prototype.trim\<close> strips the code units of ECMAScript's WhiteSpace and
  LineTerminator productions from both ends.
\<close>

definition isWhiteSpace :: "code_unit \<Rightarrow> bool" where
  "isWhiteSpace c = (c \<in> set [0x09, 0x0A, 0x0B, 0x0C, 0x0D, 0x20, 0xA0, 0x1680,
     0x2000, 0x2001, 0x2002, 0x2003, 0x2004, 0x2005, 0x2006, 0x2007, 0x2008, 0x2009, 0x200A,
     0x2028, 0x2029, 0x202F, 0x205F, 0x3000, 0xFEFF])"

definition trim :: "jsstring \<Rightarrow> jsstring" where
  "trim s = rev (dropWhile isWhiteSpace (rev (dropWhile isWhiteSpace s)))"

text \<open>
  \<open>String.prototype.toLowerCase\<close>. On a string of ASCII code units it maps \<open>A\<close>..\<open>Z\<close>
  to \<open>a\<close>..\<open>z\<close> and nothing else. On any other string the result comes from the
  engine's Unicode case-mapping tables, which are no part of the repository: they are the
  parameter \<open>U\<close>, and every statement below holds for every \<open>U\<close>.
\<close>

definition lower_ascii :: "code_unit \<Rightarrow> code_unit" where
  "lower_ascii c = (if 0x41 \<le> c \<and> c \<le> 0x5A then c + 0x20 else c)"

definition toLowerCase :: "(jsstring \<Rightarrow> jsstring) \<Rightarrow> jsstring \<Rightarrow> jsstring" where
  "toLowerCase U s = (if list_all (\<lambda>c. c < 0x80) s then map lower_ascii s else U s)"

text \<open>\<open>String.prototype.includes\<close>: the argument occurs as a contiguous run.\<close>

fun startsWith :: "'a list \<Rightarrow> 'a list \<Rightarrow> bool" where
  "startsWith s [] = True"
| "startsWith [] (q # qs) = False"
| "startsWith (c # cs) (q # qs) = (c = q \<and> startsWith cs qs)"

fun str_includes :: "'a list \<Rightarrow> 'a list \<Rightarrow> bool" where
  "str_includes [] q = (q = [])"
| "str_includes (c # cs) q = (startsWith (c # cs) q \<or> str_includes cs q)"

text \<open>\<open>Array.prototype.join\<close> on an array of strings.\<close>

fun join :: "jsstring \<Rightarrow> jsstring list \<Rightarrow> jsstring" where
  "join sep [] = []"
| "join sep [x] = x"
| "join sep (x # y # ys) = x @ sep @ join sep (y # ys)"

section \<open>JavaScript numbers\<close>

text \<open>
  A JavaScript number is an IEEE 754 binary64 value. The model keeps the finite values as
  the rationals they denote (the sign of zero is dropped: no operation of the program
  tells \<open>-0\<close> from \<open>+0\<close>) and rounds every arithmetic result to the nearest
  representable value, ties to the even significand: 53 significant bits, exponents down
  to \<open>-1022\<close> (below that the spacing stays \<open>pow2 (-1074)\<close>), and overflow to an
  infinity from \<open>2 ^ 1024\<close> on.
\<close>

datatype number = Fin rat | PosInf | NegInf | NaN

definition round_even :: "rat \<Rightarrow> int" where
  "round_even y = (let f = \<lfloor>y\<rfloor>; d = y - of_int f in
     if d < 1 / 2 then f else if 1 / 2 < d then f + 1 else if even f then f else f + 1)"

text \<open>\<open>ilog2 q\<close> is \<open>\<lfloor>log\<^sub>2 q\<rfloor>\<close> for a positive rational.\<close>

definition ilog2 :: "rat \<Rightarrow> int" where
  "ilog2 q = (if 1 \<le> q then int (floorlog 2 (nat \<lfloor>q\<rfloor>)) - 1
              else - int (floorlog 2 (nat (\<lceil>1 / q\<rceil> - 1))))"

text \<open>\<open>pow2 e\<close> is the power of two with the integer exponent \<open>e\<close>.\<close>

definition pow2 :: "int \<Rightarrow> rat" where
  "pow2 e = (if 0 \<le> e then 2 ^ nat e else 1 / 2 ^ nat (- e))"

text \<open>The spacing of the representable values around a positive rational.\<close>

definition ulp :: "rat \<Rightarrow> rat" where
  "ulp q = pow2 (max (ilog2 q) (- 1022) - 52)"

definition round53 :: "rat \<Rightarrow> rat" where
  "round53 q = of_int (round_even (q / ulp q)) * ulp q"

definition fl :: "rat \<Rightarrow> number" where
  "fl q = (if q = 0 then Fin 0
           else let v = round53 \<bar>q\<bar> in
             if 2 ^ 1024 \<le> v then (if 0 < q then PosInf else NegInf)
             else Fin (if 0 < q then v else - v))"

fun num_add :: "number \<Rightarrow> number \<Rightarrow> number" where
  "num_add (Fin a) (Fin b) = fl (a + b)"
| "num_add NaN y = NaN"
| "num_add x NaN = NaN"
| "num_add PosInf NegInf = NaN"
| "num_add NegInf PosInf = NaN"
| "num_add PosInf y = PosInf"
| "num_add NegInf y = NegInf"
| "num_add (Fin a) y = y"

fun num_mul :: "number \<Rightarrow> number \<Rightarrow> number" where
  "num_mul (Fin a) (Fin b) = fl (a * b)"
| "num_mul NaN y = NaN"
| "num_mul x NaN = NaN"
| "num_mul (Fin a) y = (if a = 0 then NaN else if (0 < a) = (y = PosInf) then PosInf else NegInf)"
| "num_mul x (Fin b) = (if b = 0 then NaN else if (0 < b) = (x = PosInf) then PosInf else NegInf)"
| "num_mul x y = (if x = y then PosInf else NegInf)"

fun num_div :: "number \<Rightarrow> number \<Rightarrow> number" where
  "num_div (Fin a) (Fin b) =
     (if b = 0 then (if a = 0 then NaN else if 0 < a then PosInf else NegInf)
      else fl (a / b))"
| "num_div NaN y = NaN"
| "num_div x NaN = NaN"
| "num_div (Fin a) y = Fin 0"
| "num_div x (Fin b) = (if (0 \<le> b) = (x = PosInf) then PosInf else NegInf)"
| "num_div x y = NaN"

text \<open>
  The decimal digits of a natural number: \<open>Number::toString\<close> on a non-negative integer
  below \<open>10 ^ 21\<close> that the digits denote exactly, which every integer up to \<open>2 ^ 53\<close>
  is.
\<close>

definition digit :: "nat \<Rightarrow> code_unit" where
  "digit d = of_nat (48 + d)"

fun digits :: "nat \<Rightarrow> jsstring" where
  "digits n = (if n < 10 then [digit n] else digits (n div 10) @ [digit (n mod 10)])"

declare digits.simps [simp del]

definition numberToString :: "nat \<Rightarrow> jsstring" where
  "numberToString n = digits n"

text \<open>\<open>Number.isSafeInteger\<close> on a non-negative integer.\<close>

definition isSafeInteger :: "nat \<Rightarrow> bool" where
  "isSafeInteger n = (n \<le> 2 ^ 53 - 1)"

text \<open>
  \<open>Number.prototype.toFixed(2)\<close> on a value \<open>0 \<le> x < 10 ^ 21\<close>: \<open>n\<close> is the integer
  for which \<open>n / 100 - x\<close> is closest to zero, the larger one of two; its digits are
  padded with zeros to three and the point goes before the last two. (From \<open>10 ^ 21\<close> on
  the method prints the exponent notation of \<open>Number::toString\<close>, which is not modelled;
  \<open>calculatePercentage\<close> stays below \<open>100\<close>.)
\<close>

definition fixed2 :: "rat \<Rightarrow> jsstring" where
  "fixed2 x =
     (let n = nat \<lfloor>x * 100 + 1 / 2\<rfloor>;
          m = digits n;
          m = (if length m \<le> 2 then replicate (3 - length m) (digit 0) @ m else m);
          k = length m
      in take (k - 2) m @ js ''.'' @ drop (k - 2) m)"

fun toFixed2 :: "number \<Rightarrow> jsstring" where
  "toFixed2 NaN = js ''NaN''"
| "toFixed2 PosInf = js ''Infinity''"
| "toFixed2 NegInf = js ''-Infinity''"
| "toFixed2 (Fin x) = (if x < 0 then js ''-'' @ fixed2 (- x) else fixed2 x)"

text \<open>\<open>present += 1\<close> on a counter: the sum, rounded as every number is.\<close>

definition increment :: "nat \<Rightarrow> nat" where
  "increment n = (case num_add (Fin (of_nat n)) (Fin 1) of Fin q \<Rightarrow> nat \<lfloor>q\<rfloor> | _ \<Rightarrow> n)"

section \<open>The data model\<close>

text \<open>
  A subject is the object \<open>{ name, present, absent }\<close>; the profile held in the React
  state \<open>attendanceData\<close> is \<open>{ name, subjects }\<close>. The counters are numbers holding
  non-negative integers. The profile is polymorphic in what its array holds: the subject
  objects themselves where no object is changed in place, references into a store of
  objects where \<open>updateAttendance\<close> does so.
\<close>

record subject =
  name :: jsstring
  present :: nat
  absent :: nat

record 's profile =
  name :: jsstring
  subjects :: "'s list"

text \<open>
  The program state: the React state variables \<open>attendanceData\<close>, \<open>showNamePrompt\<close> and
  \<open>isLoading\<close>, the alerts shown so far (\<open>Alert.alert(title, message)\<close>, the newest
  last), and the item AsyncStorage holds under \<open>STORAGE_KEY\<close>.
\<close>

datatype alert = Alert string string

record 'd app_state =
  attendanceData :: 'd
  showNamePrompt :: bool
  isLoading :: bool
  alerts :: "alert list"
  storage :: "jsstring option"

section \<open>Percentage, search and export\<close>

definition calculatePercentage :: "nat \<Rightarrow> nat \<Rightarrow> jsstring" where
  "calculatePercentage p a =
     (let total = num_add (Fin (of_nat p)) (Fin (of_nat a)) in
      if total = Fin 0 then js ''0.00''
      else let percentage = num_mul (num_div (Fin (of_nat p)) total) (Fin 100)
           in toFixed2 percentage)"

definition filteredSubjects ::
  "(jsstring \<Rightarrow> jsstring) \<Rightarrow> subject profile \<Rightarrow> jsstring \<Rightarrow> subject list" where
  "filteredSubjects U data searchQuery =
     filter (\<lambda>subject. str_includes (toLowerCase U (subject.name subject))
                                      (toLowerCase U searchQuery))
       (subjects data)"

definition headers :: jsstring where
  "headers = js ''Subject,Classes Attended,Classes Missed,Attendance Percentage'' @ [0x0A]"

definition csvRow :: "subject \<Rightarrow> jsstring" where
  "csvRow subject =
     subject.name subject @ js '','' @ numberToString (present subject) @ js '','' @
     numberToString (absent subject) @ js '','' @
     calculatePercentage (present subject) (absent subject) @ js ''%''"

definition csvContent :: "subject profile \<Rightarrow> jsstring" where
  "csvContent data =
     headers @ join [0x0A] (map csvRow (subjects data))"

text \<open>
  \<open>exportToCSV\<close> up to the text it hands to \<open>FileSystem.writeAsStringAsync\<close>: the alert
  it raises instead when there is no subject, or the CSV text.
\<close>

definition exportToCSV :: "subject profile app_state \<Rightarrow> alert + jsstring" where
  "exportToCSV st =
     (if length (subjects (attendanceData st)) = 0 then Inl (Alert ''Error'' ''No data to export'')
      else Inr (csvContent (attendanceData st)))"

section \<open>Serialisation\<close>

text \<open>
  \<open>JSON.stringify\<close> on a profile. A string is quoted with the escapes of
  \<open>QuoteJSONString\<close>: the two-character escapes (a backslash, code unit \<open>0x5C\<close>, and
  one of \<open>b t n f r\<close>, the quote or the backslash), the six-character escape (backslash,
  \<open>u\<close>, four lower-case hexadecimal digits) for the other control characters and for
  a surrogate that is not part of a pair; every other code unit stands for itself.
\<close>

definition hexdigit :: "nat \<Rightarrow> code_unit" where
  "hexdigit d = (if d < 10 then of_nat (48 + d) else of_nat (87 + d))"

definition unicodeEscape :: "code_unit \<Rightarrow> jsstring" where
  "unicodeEscape c =
     [0x5C, 0x75, hexdigit (unat c div 4096), hexdigit (unat c div 256 mod 16),
      hexdigit (unat c div 16 mod 16), hexdigit (unat c mod 16)]"

definition isLeadingSurrogate :: "code_unit \<Rightarrow> bool" where
  "isLeadingSurrogate c = (0xD800 \<le> c \<and> c \<le> 0xDBFF)"

definition isTrailingSurrogate :: "code_unit \<Rightarrow> bool" where
  "isTrailingSurrogate c = (0xDC00 \<le> c \<and> c \<le> 0xDFFF)"

definition quoteUnit :: "code_unit \<Rightarrow> jsstring" where
  "quoteUnit c =
     (if c = 0x08 then [0x5C, 0x62] else if c = 0x09 then [0x5C, 0x74]
      else if c = 0x0A then [0x5C, 0x6E] else if c = 0x0C then [0x5C, 0x66]
      else if c = 0x0D then [0x5C, 0x72] else if c = 0x22 then [0x5C, 0x22]
      else if c = 0x5C then [0x5C, 0x5C]
      else if c < 0x20 \<or> isLeadingSurrogate c \<or> isTrailingSurrogate c then unicodeEscape c
      else [c])"

fun quoteBody :: "jsstring \<Rightarrow> jsstring" where
  "quoteBody [] = []"
| "quoteBody [c] = quoteUnit c"
| "quoteBody (c # d # ds) =
     (if isLeadingSurrogate c \<and> isTrailingSurrogate d then c # d # quoteBody ds
      else quoteUnit c @ quoteBody (d # ds))"

definition quoteJSONString :: "jsstring \<Rightarrow> jsstring" where
  "quoteJSONString s = [0x22] @ quoteBody s @ [0x22]"

definition stringifySubject :: "subject \<Rightarrow> jsstring" where
  "stringifySubject s =
     js ''{'' @ quoteJSONString (js ''name'') @ js '':'' @ quoteJSONString (subject.name s) @
     js '','' @ quoteJSONString (js ''present'') @ js '':'' @ numberToString (present s) @
     js '','' @ quoteJSONString (js ''absent'') @ js '':'' @ numberToString (absent s) @ js ''}''"

definition JSON_stringify :: "subject profile \<Rightarrow> jsstring" where
  "JSON_stringify p =
     js ''{'' @ quoteJSONString (js ''name'') @ js '':'' @ quoteJSONString (profile.name p) @
     js '','' @ quoteJSONString (js ''subjects'') @ js '':'' @
     js ''['' @ join (js '','') (map stringifySubject (subjects p)) @ js '']'' @ js ''}''"

text \<open>
  \<open>JSON.parse\<close>. The values JSON text denotes: \<open>null\<close>, the booleans, numbers, strings,
  arrays, and objects as their properties in order. (The order in which an object
  enumerates keys that look like array indices is not modelled; nothing here depends on
  it.)
\<close>

datatype jsvalue =
    JNull
  | JBool bool
  | JNum number
  | JStr jsstring
  | JArr "jsvalue list"
  | JObj "(jsstring \<times> jsvalue) list"

definition isJSONSpace :: "code_unit \<Rightarrow> bool" where
  "isJSONSpace c = (c = 0x09 \<or> c = 0x0A \<or> c = 0x0D \<or> c = 0x20)"

definition skipSpace :: "jsstring \<Rightarrow> jsstring" where
  "skipSpace s = dropWhile isJSONSpace s"

text \<open>\<open>peek c s\<close>: the text \<open>s\<close> starts with the code unit \<open>c\<close>.\<close>

definition peek :: "code_unit \<Rightarrow> jsstring \<Rightarrow> bool" where
  "peek c s = (case s of [] \<Rightarrow> False | d # _ \<Rightarrow> d = c)"

text \<open>A string literal, from after its opening quote: the string and the rest of the text.\<close>

definition hexValue :: "code_unit \<Rightarrow> nat option" where
  "hexValue c =
     (if 0x30 \<le> c \<and> c \<le> 0x39 then Some (unat c - 48)
      else if 0x61 \<le> c \<and> c \<le> 0x66 then Some (unat c - 87)
      else if 0x41 \<le> c \<and> c \<le> 0x46 then Some (unat c - 55)
      else None)"

definition hex4 :: "jsstring \<Rightarrow> code_unit option" where
  "hex4 s =
     (case map hexValue s of
        [Some a, Some b, Some c, Some d] \<Rightarrow> Some (of_nat (((a * 16 + b) * 16 + c) * 16 + d))
      | _ \<Rightarrow> None)"

definition unescape :: "code_unit \<Rightarrow> code_unit option" where
  "unescape e =
     (if e = 0x22 then Some 0x22 else if e = 0x5C then Some 0x5C
      else if e = 0x2F then Some 0x2F else if e = 0x62 then Some 0x08
      else if e = 0x66 then Some 0x0C else if e = 0x6E then Some 0x0A
      else if e = 0x72 then Some 0x0D else if e = 0x74 then Some 0x09
      else None)"

fun parseChars :: "jsstring \<Rightarrow> (jsstring \<times> jsstring) option" where
  "parseChars [] = None"
| "parseChars (c # cs) =
     (if c = 0x22 then Some ([], cs)
      else if c = 0x5C then
        (case cs of
           [] \<Rightarrow> None
         | e # es \<Rightarrow>
             if e = 0x75 then
               (case hex4 (take 4 es) of
                  None \<Rightarrow> None
                | Some u \<Rightarrow> map_option (\<lambda>(s, r). (u # s, r)) (parseChars (drop 4 es)))
             else
               (case unescape e of
                  None \<Rightarrow> None
                | Some u \<Rightarrow> map_option (\<lambda>(s, r). (u # s, r)) (parseChars es)))
      else if c < 0x20 then None
      else map_option (\<lambda>(s, r). (c # s, r)) (parseChars cs))"

text \<open>
  A number literal: an optional minus sign, the integer part (one zero, or digits not
  starting with zero), an optional fraction, an optional exponent. Its value is the
  number nearest to the decimal value written.
\<close>

definition isDigit :: "code_unit \<Rightarrow> bool" where
  "isDigit c = (0x30 \<le> c \<and> c \<le> 0x39)"

definition decimal :: "jsstring \<Rightarrow> nat" where
  "decimal s = foldl (\<lambda>a c. 10 * a + (unat c - 48)) 0 s"

definition parseNumber :: "jsstring \<Rightarrow> (jsvalue \<times> jsstring) option" where
  "parseNumber s =
     (let neg = peek 0x2D s;
          s1 = (if neg then tl s else s);
          ip = takeWhile isDigit s1;
          s2 = dropWhile isDigit s1;
          hasFrac = peek 0x2E s2;
          fp = (if hasFrac then takeWhile isDigit (tl s2) else []);
          s3 = (if hasFrac then dropWhile isDigit (tl s2) else s2);
          hasExp = (peek 0x65 s3 \<or> peek 0x45 s3);
          s4 = (if hasExp then tl s3 else s3);
          eneg = (hasExp \<and> peek 0x2D s4);
          s5 = (if hasExp \<and> (peek 0x2D s4 \<or> peek 0x2B s4) then tl s4 else s4);
          ep = (if hasExp then takeWhile isDigit s5 else []);
          s6 = (if hasExp then dropWhile isDigit s5 else s3);
          m = (of_nat (decimal (ip @ fp)) :: rat) / 10 ^ length fp;
          v = (if eneg then m / 10 ^ decimal ep else m * 10 ^ decimal ep)
      in if ip = [] \<or> (peek 0x30 ip \<and> 1 < length ip) \<or> (hasFrac \<and> fp = []) \<or>
            (hasExp \<and> ep = [])
         then None
         else Some (JNum (fl (if neg then - v else v)), s6))"

text \<open>
  An object keeps one property per key: a key that comes again replaces the value and
  keeps the place.
\<close>

fun objectSet ::
  "jsstring \<Rightarrow> jsvalue \<Rightarrow> (jsstring \<times> jsvalue) list \<Rightarrow> (jsstring \<times> jsvalue) list" where
  "objectSet k v [] = [(k, v)]"
| "objectSet k v ((k', v') # ms) =
     (if k' = k then (k, v) # ms else (k', v') # objectSet k v ms)"

definition object :: "(jsstring \<times> jsvalue) list \<Rightarrow> jsvalue" where
  "object ms = JObj (foldl (\<lambda>obj (k, v). objectSet k v obj) [] ms)"

text \<open>
  The recursive descent over values, the elements of an array (from after the bracket or
  a comma) and the members of an object (likewise). The first argument bounds the number
  of nested and consecutive calls; every second call consumes a code unit of the text, so
  twice the length of the text, and two, is enough for every text.
\<close>

fun parseValue :: "nat \<Rightarrow> jsstring \<Rightarrow> (jsvalue \<times> jsstring) option"
  and parseElements :: "nat \<Rightarrow> jsstring \<Rightarrow> (jsvalue list \<times> jsstring) option"
  and parseMembers :: "nat \<Rightarrow> jsstring \<Rightarrow> ((jsstring \<times> jsvalue) list \<times> jsstring) option"
where
  "parseValue 0 s = None"
| "parseValue (Suc n) s =
     (case skipSpace s of
        [] \<Rightarrow> None
      | c # cs \<Rightarrow>
          if c = 0x7B then
            (if peek 0x7D (skipSpace cs) then Some (JObj [], tl (skipSpace cs))
             else map_option (\<lambda>(ms, r). (object ms, r)) (parseMembers n cs))
          else if c = 0x5B then
            (if peek 0x5D (skipSpace cs) then Some (JArr [], tl (skipSpace cs))
             else map_option (\<lambda>(vs, r). (JArr vs, r)) (parseElements n cs))
          else if c = 0x22 then map_option (\<lambda>(str, r). (JStr str, r)) (parseChars cs)
          else if take 4 (c # cs) = js ''true'' then Some (JBool True, drop 4 (c # cs))
          else if take 5 (c # cs) = js ''false'' then Some (JBool False, drop 5 (c # cs))
          else if take 4 (c # cs) = js ''null'' then Some (JNull, drop 4 (c # cs))
          else parseNumber (c # cs))"
| "parseElements 0 s = None"
| "parseElements (Suc n) s =
     (case parseValue n s of
        None \<Rightarrow> None
      | Some (v, r) \<Rightarrow>
          (case skipSpace r of
             [] \<Rightarrow> None
           | c # cs \<Rightarrow>
               if c = 0x2C then map_option (\<lambda>(vs, r'). (v # vs, r')) (parseElements n cs)
               else if c = 0x5D then Some ([v], cs)
               else None))"
| "parseMembers 0 s = None"
| "parseMembers (Suc n) s =
     (case skipSpace s of
        [] \<Rightarrow> None
      | q # cs \<Rightarrow>
          if q \<noteq> 0x22 then None
          else
            (case parseChars cs of
               None \<Rightarrow> None
             | Some (k, r) \<Rightarrow>
                 (case skipSpace r of
                    [] \<Rightarrow> None
                  | c # r1 \<Rightarrow>
                      if c \<noteq> 0x3A then None
                      else
                        (case parseValue n r1 of
                           None \<Rightarrow> None
                         | Some (v, r2) \<Rightarrow>
                             (case skipSpace r2 of
                                [] \<Rightarrow> None
                              | d # r3 \<Rightarrow>
                                  if d = 0x2C then
                                    map_option (\<lambda>(ms, r'). ((k, v) # ms, r')) (parseMembers n r3)
                                  else if d = 0x7D then Some ([(k, v)], r3)
                                  else None)))))"

text \<open>\<open>JSON.parse\<close>: \<open>None\<close> is the \<open>SyntaxError\<close> it throws.\<close>

definition JSON_parse :: "jsstring \<Rightarrow> jsvalue option" where
  "JSON_parse s =
     (case parseValue (2 * length s + 2) s of
        None \<Rightarrow> None
      | Some (v, r) \<Rightarrow> if skipSpace r = [] then Some v else None)"

text \<open>The value a profile is: what \<open>JSON.parse\<close> returns for its serialisation.\<close>

definition subjectValue :: "subject \<Rightarrow> jsvalue" where
  "subjectValue s =
     JObj [(js ''name'', JStr (subject.name s)),
           (js ''present'', JNum (Fin (of_nat (present s)))),
           (js ''absent'', JNum (Fin (of_nat (absent s))))]"

definition profileValue :: "subject profile \<Rightarrow> jsvalue" where
  "profileValue p =
     JObj [(js ''name'', JStr (profile.name p)),
           (js ''subjects'', JArr (map subjectValue (subjects p)))]"

section \<open>Saving and the mutations\<close>

text \<open>
  \<open>saveData(newData)\<close>, once the promise of \<open>AsyncStorage.setItem\<close> has settled:
  \<open>write_ok\<close> says whether it resolved. \<open>stringify\<close> is \<open>JSON.stringify\<close> on the
  representation the caller uses, and \<open>closure\<close> is the \<open>attendanceData\<close> the function
  closed over: the state of the render that created it, which the \<open>catch\<close> branch sets
  again.
\<close>

definition saveData ::
  "('d \<Rightarrow> jsstring) \<Rightarrow> bool \<Rightarrow> 'd \<Rightarrow> 'd \<Rightarrow> 'd app_state \<Rightarrow> 'd app_state" where
  "saveData stringify write_ok closure newData st =
     (if write_ok then st\<lparr>storage := Some (stringify newData)\<rparr>
      else st\<lparr>alerts := alerts st @ [Alert ''Error'' ''Failed to save data. Please try again.''],
              attendanceData := closure\<rparr>)"

text \<open>
  \<open>handleAddSubject\<close>, with the text of the input field \<open>newSubjectName\<close> as an argument.
  (The resets of the input field and of the modal's visibility are not part of the state
  modelled.)
\<close>

definition handleAddSubject ::
  "(jsstring \<Rightarrow> jsstring) \<Rightarrow> jsstring \<Rightarrow> bool \<Rightarrow> subject profile app_state
     \<Rightarrow> subject profile app_state" where
  "handleAddSubject U newSubjectName write_ok st =
     (if trim newSubjectName = [] then
        st\<lparr>alerts := alerts st @ [Alert ''Error'' ''Please enter a subject name'']\<rparr>
      else if list_ex (\<lambda>subject. toLowerCase U (subject.name subject) =
                                  toLowerCase U (trim newSubjectName))
                (subjects (attendanceData st)) then
        st\<lparr>alerts := alerts st @ [Alert ''Error'' ''This subject already exists'']\<rparr>
      else
        let newData = (attendanceData st)\<lparr>subjects :=
              subjects (attendanceData st) @
                [\<lparr>subject.name = trim newSubjectName, present = 0, absent = 0\<rparr>]\<rparr>
        in saveData JSON_stringify write_ok (attendanceData st) newData
             (st\<lparr>attendanceData := newData\<rparr>))"

text \<open>
  \<open>deleteSubject(index)\<close> opens a confirmation dialog; \<open>choice\<close> is the button the user
  presses. Only \<open>Delete\<close> has a handler.
\<close>

datatype button = Cancel | Delete

definition deleteSubject ::
  "int \<Rightarrow> button \<Rightarrow> bool \<Rightarrow> subject profile app_state \<Rightarrow> subject profile app_state" where
  "deleteSubject index choice write_ok st =
     (case choice of
        Cancel \<Rightarrow> st
      | Delete \<Rightarrow>
          let newSubjects = map snd (filter (\<lambda>(i, _). int i \<noteq> index)
                                       (enumerate 0 (subjects (attendanceData st))));
              newData = (attendanceData st)\<lparr>subjects := newSubjects\<rparr>
          in saveData JSON_stringify write_ok (attendanceData st) newData
               (st\<lparr>attendanceData := newData\<rparr>))"

section \<open>Recording attendance\<close>

text \<open>
  \<open>updateAttendance\<close> copies the array of subjects (\<open>[...attendanceData.subjects]\<close>: a
  new array holding the same object references) and then changes the subject object at
  the index in place. Objects that are changed in place need a store: a reference is an
  address, the store maps every address to the object it holds, and the profile's array
  holds references. \<open>snapshot\<close> reads a profile through the store, as a render and
  \<open>JSON.stringify\<close> do.
\<close>

type_synonym ref = nat
type_synonym heap = "ref \<Rightarrow> subject"

definition snapshot :: "heap \<Rightarrow> ref profile \<Rightarrow> subject profile" where
  "snapshot h p = \<lparr>profile.name = profile.name p, subjects = map h (subjects p)\<rparr>"

text \<open>
  Where the index is outside the array, \<open>newSubjects[index]\<close> is \<open>undefined\<close> and reading
  its property throws a \<open>TypeError\<close>, which nothing catches: the first component of the
  result is the exception that left the handler, the others are the store and the state
  it leaves behind.
\<close>

datatype exception = TypeError

definition updateAttendance ::
  "int \<Rightarrow> bool \<Rightarrow> bool \<Rightarrow> heap \<Rightarrow> ref profile app_state
     \<Rightarrow> exception option \<times> heap \<times> ref profile app_state" where
  "updateAttendance index isPresent write_ok h st =
     (let newSubjects = subjects (attendanceData st) in
      if index < 0 \<or> int (length newSubjects) \<le> index then (Some TypeError, h, st)
      else
        let r = newSubjects ! nat index;
            h' = (if isPresent then h(r := (h r)\<lparr>present := increment (present (h r))\<rparr>)
                  else h(r := (h r)\<lparr>absent := increment (absent (h r))\<rparr>));
            newData = (attendanceData st)\<lparr>subjects := newSubjects\<rparr>
        in (None, h',
            saveData (\<lambda>d. JSON_stringify (snapshot h' d)) write_ok (attendanceData st) newData
              (st\<lparr>attendanceData := newData\<rparr>)))"

section \<open>Loading\<close>

text \<open>
  The state a start of the program begins with: the initial values of the state
  variables, over whatever the storage holds.
\<close>

definition initialState :: "jsstring option \<Rightarrow> jsvalue app_state" where
  "initialState stored =
     \<lparr>attendanceData = profileValue \<lparr>profile.name = [], subjects = []\<rparr>,
      showNamePrompt = False, isLoading = True, alerts = [], storage = stored\<rparr>"

text \<open>
  \<open>loadData\<close>, once the promise of \<open>AsyncStorage.getItem\<close> has settled: \<open>read_ok\<close> says
  whether it resolved. It resolves to \<open>null\<close> when there is no item; the empty string is
  as falsy as \<open>null\<close>. Whatever \<open>JSON.parse\<close> returns becomes the state; what it throws
  is caught with the rejection of the read. The \<open>finally\<close> block ends the loading.
\<close>

definition loadData :: "bool \<Rightarrow> jsvalue app_state \<Rightarrow> jsvalue app_state" where
  "loadData read_ok st =
     (let st1 = st\<lparr>isLoading := True\<rparr>;
          failed = st1\<lparr>alerts := alerts st1 @
                     [Alert ''Error'' ''Failed to load attendance data'']\<rparr>;
          st2 = (if \<not> read_ok then failed
                 else case storage st1 of
                        None \<Rightarrow> st1\<lparr>showNamePrompt := True\<rparr>
                      | Some data \<Rightarrow>
                          if data = [] then st1\<lparr>showNamePrompt := True\<rparr>
                          else (case JSON_parse data of
                                  None \<Rightarrow> failed
                                | Some v \<Rightarrow> st1\<lparr>attendanceData := v\<rparr>))
      in st2\<lparr>isLoading := False\<rparr>)"

section \<open>Evaluating the model\<close>

lemma js_simps: "js [] = []" "js (c # cs) = of_char c # js cs"
  by (simp_all add: js_def)

lemma floor_rat_numeral [simp]:
  "\<lfloor>numeral a / numeral b :: rat\<rfloor> = numeral a div numeral b"
  by (metis floor_divide_of_int_eq of_int_numeral)

lemma floor_rat_one [simp]: "\<lfloor>1 / numeral b :: rat\<rfloor> = 1 div numeral b"
  by (metis floor_divide_of_int_eq of_int_1 of_int_numeral)

lemma ceiling_rat_numeral [simp]:
  "\<lceil>numeral a / numeral b :: rat\<rceil> = - (- numeral a div numeral b)"
  by (metis ceiling_def floor_divide_of_int_eq minus_divide_left of_int_minus of_int_numeral)

lemma ceiling_rat_one [simp]: "\<lceil>1 / numeral b :: rat\<rceil> = - (- 1 div numeral b)"
  by (metis ceiling_def floor_divide_of_int_eq minus_divide_left of_int_minus of_int_numeral
      of_int_1)

lemmas fl_eval =
  fl_def round53_def ulp_def pow2_def ilog2_def round_even_def compute_floorlog Let_def

lemma digits_lt10: "n < 10 \<Longrightarrow> digits n = [digit n]"
  by (simp add: digits.simps)

lemma digits_ge10: "10 \<le> n \<Longrightarrow> digits n = digits (n div 10) @ [digit (n mod 10)]"
  by (subst digits.simps) simp

lemma length_digits_pos: "0 < length (digits n)"
  by (subst digits.simps) simp

lemma length_digits_le2: "length (digits n) \<le> 2 \<longleftrightarrow> n < 100"
proof (cases "n < 10")
  case True
  then show ?thesis by (simp add: digits_lt10)
next
  case False
  then have n: "10 \<le> n" by simp
  show ?thesis
  proof (cases "n < 100")
    case True
    then have "n div 10 < 10" by simp
    with n True show ?thesis by (simp add: digits_ge10 digits_lt10)
  next
    case False
    then have "10 \<le> n div 10" by simp
    then have "digits (n div 10) = digits (n div 10 div 10) @ [digit (n div 10 mod 10)]"
      by (rule digits_ge10)
    with n False show ?thesis using length_digits_pos [of "n div 10 div 10"]
      by (simp add: digits_ge10)
  qed
qed

lemma digits_split100:
  "100 \<le> n \<Longrightarrow> digits n = digits (n div 100) @ [digit (n div 10 mod 10), digit (n mod 10)]"
proof -
  assume h: "100 \<le> n"
  then have "10 \<le> n" "10 \<le> n div 10" by simp_all
  then have "digits n = digits (n div 10 div 10) @ [digit (n div 10 mod 10)] @ [digit (n mod 10)]"
    by (simp add: digits_ge10)
  moreover have "n div 10 div 10 = n div 100" by arith
  ultimately show ?thesis by simp
qed

text \<open>
  The shape of a \<open>toFixed(2)\<close> result: the digits of the hundreds, the point, two
  digits.
\<close>

lemma fixed2_shape:
  "fixed2 x = (let n = nat \<lfloor>x * 100 + 1 / 2\<rfloor> in
     digits (n div 100) @ js ''.'' @ [digit (n div 10 mod 10), digit (n mod 10)])"
proof -
  define n where "n = nat \<lfloor>x * 100 + 1 / 2\<rfloor>"
  consider "n < 10" | "10 \<le> n" "n < 100" | "100 \<le> n" by linarith
  then have "(let m = digits n;
          m = (if length m \<le> 2 then replicate (3 - length m) (digit 0) @ m else m);
          k = length m
      in take (k - 2) m @ js ''.'' @ drop (k - 2) m) =
     digits (n div 100) @ js ''.'' @ [digit (n div 10 mod 10), digit (n mod 10)]"
  proof cases
    case 1
    then show ?thesis
      by (simp add: digits_lt10 Let_def numeral_3_eq_3 numeral_2_eq_2)
  next
    case 2
    then have "n div 10 < 10" by simp
    with 2 show ?thesis
      by (simp add: digits_ge10 digits_lt10 Let_def numeral_3_eq_3)
  next
    case 3
    then have "\<not> length (digits n) \<le> 2" by (simp add: length_digits_le2)
    with 3 show ?thesis
      by (simp add: Let_def digits_split100)
  qed
  then show ?thesis by (simp add: fixed2_def n_def Let_def)
qed

lemma fl_3_4: "fl (3 / 4) = Fin (3 / 4)"
  by (simp add: fl_eval)

lemma fl_4: "fl 4 = Fin 4"
  by (simp add: fl_eval)

lemma fl_75: "fl 75 = Fin 75"
  by (simp add: fl_eval)

lemma percentage_3_1: "calculatePercentage 3 1 = js ''75.00''"
  by (simp add: calculatePercentage_def fl_4 fl_3_4 fl_75 fixed2_shape digits_lt10 digits_ge10)
     (simp add: js_simps digit_def)

section \<open>Rounding to a number\<close>

lemma pow2_powi: "pow2 e = 2 powi e"
  by (simp add: pow2_def power_int_def power_one_over inverse_eq_divide)

lemma pow2_pos: "0 < pow2 e"
  by (simp add: pow2_powi)

lemma pow2_add: "pow2 (a + b) = pow2 a * pow2 b"
  by (simp add: pow2_powi power_int_add)

lemma pow2_diff: "pow2 (a - b) = pow2 a / pow2 b"
  by (simp add: pow2_powi power_int_diff)

lemma pow2_mono: "a \<le> b \<Longrightarrow> pow2 a \<le> pow2 b"
  by (simp add: pow2_powi power_int_increasing)

lemma pow2_less_iff: "pow2 a < pow2 b \<longleftrightarrow> a < b"
  by (metis pow2_mono pow2_powi power_int_strict_increasing less_le_not_le not_le_imp_less
      one_less_numeral_iff semiring_norm(76))

lemma pow2_nat: "pow2 (int n) = 2 ^ n"
  by (simp add: pow2_powi)

lemma pow2_neg_nat: "pow2 (- int n) = 1 / 2 ^ n"
  by (simp add: pow2_powi power_int_minus_divide)

lemma ilog2_bounds:
  assumes "0 < q"
  shows "pow2 (ilog2 q) \<le> q \<and> q < pow2 (ilog2 q + 1)"
proof (cases "1 \<le> q")
  case True
  define n where "n = nat \<lfloor>q\<rfloor>"
  define k where "k = floorlog 2 n"
  have n: "0 < n" using True by (simp add: n_def)
  have fb: "2 ^ (k - 1) \<le> n" "n < 2 ^ k"
    using floorlog_bounds [of n 2] n by (simp_all add: k_def)
  have k: "0 < k" using n floorlog_eq_zero_iff [of 2 n] by (auto simp: k_def)
  have il: "ilog2 q = int (k - 1)" using True k by (simp add: ilog2_def n_def k_def)
  have nq: "of_nat n \<le> q" "q < of_nat n + 1"
    using True by (simp_all add: n_def) linarith+
  have "(2::rat) ^ (k - 1) \<le> of_nat n"
    using fb(1) by (metis of_nat_le_iff of_nat_numeral of_nat_power)
  moreover have "(of_nat n :: rat) + 1 \<le> 2 ^ k"
  proof -
    have "Suc n \<le> 2 ^ k" using fb(2) by simp
    then have "(of_nat (Suc n) :: rat) \<le> of_nat (2 ^ k)" by (simp only: of_nat_le_iff)
    then show ?thesis by simp
  qed
  moreover have "pow2 (ilog2 q) = 2 ^ (k - 1)"
    by (simp only: il pow2_nat)
  moreover have "pow2 (ilog2 q + 1) = 2 ^ k"
  proof -
    have "ilog2 q + 1 = int k" using il k by simp
    then show ?thesis by (simp only: pow2_nat)
  qed
  ultimately show ?thesis using nq by linarith
next
  case False
  define r where "r = 1 / q"
  define m where "m = nat (\<lceil>r\<rceil> - 1)"
  define k where "k = floorlog 2 m"
  have r: "1 < r" using False assms by (simp add: r_def)
  then have c: "2 \<le> \<lceil>r\<rceil>" by linarith
  then have m: "0 < m" by (simp add: m_def)
  have fb: "2 ^ (k - 1) \<le> m" "m < 2 ^ k"
    using floorlog_bounds [of m 2] m by (simp_all add: k_def)
  have k: "0 < k" using m floorlog_eq_zero_iff [of 2 m] by (auto simp: k_def)
  have il: "ilog2 q = - int k" using False by (simp add: ilog2_def m_def k_def r_def)
  have mr: "of_nat m < r" "r \<le> of_nat m + 1"
    using c by (simp_all add: m_def) linarith+
  have lo: "(2::rat) ^ (k - 1) \<le> of_nat m"
    using fb(1) by (metis of_nat_le_iff of_nat_numeral of_nat_power)
  have hi: "(of_nat m :: rat) + 1 \<le> 2 ^ k"
  proof -
    have "Suc m \<le> 2 ^ k" using fb(2) by simp
    then have "(of_nat (Suc m) :: rat) \<le> of_nat (2 ^ k)" by (simp only: of_nat_le_iff)
    then show ?thesis by simp
  qed
  have a: "r \<le> 2 ^ k" using mr hi by linarith
  have b: "2 ^ (k - 1) < r" using mr lo by linarith
  have "1 / 2 ^ k \<le> q"
    using a assms by (simp add: r_def field_simps)
  moreover have "q < 1 / 2 ^ (k - 1)"
    using b assms by (simp add: r_def field_simps)
  moreover have "pow2 (ilog2 q) = 1 / 2 ^ k"
    by (simp only: il pow2_neg_nat)
  moreover have "pow2 (ilog2 q + 1) = 1 / 2 ^ (k - 1)"
  proof -
    have "ilog2 q + 1 = - int (k - 1)" using k il by simp
    then show ?thesis by (simp only: pow2_neg_nat)
  qed
  ultimately show ?thesis by linarith
qed

lemma ilog2_mono: "0 < q1 \<Longrightarrow> q1 \<le> q2 \<Longrightarrow> ilog2 q1 \<le> ilog2 q2"
proof -
  assume h: "0 < q1" "q1 \<le> q2"
  then have "pow2 (ilog2 q1) < pow2 (ilog2 q2 + 1)"
    using ilog2_bounds [of q1] ilog2_bounds [of q2] by linarith
  then show ?thesis by (simp add: pow2_less_iff)
qed

lemma ilog2_le: "0 < q \<Longrightarrow> q < pow2 e \<Longrightarrow> ilog2 q < e"
proof -
  assume h: "0 < q" "q < pow2 e"
  then have "pow2 (ilog2 q) < pow2 e" using ilog2_bounds [of q] by linarith
  then show ?thesis by (simp add: pow2_less_iff)
qed

lemma round_even_of_int: "round_even (of_int k) = k"
  by (simp add: round_even_def)

lemma round_even_floor: "\<lfloor>y\<rfloor> \<le> round_even y \<and> round_even y \<le> \<lfloor>y\<rfloor> + 1"
  by (simp add: round_even_def Let_def)

lemma round_even_mono: "y1 \<le> y2 \<Longrightarrow> round_even y1 \<le> round_even y2"
proof -
  assume h: "y1 \<le> y2"
  then have f: "\<lfloor>y1\<rfloor> \<le> \<lfloor>y2\<rfloor>" by (rule floor_mono)
  show ?thesis
  proof (cases "\<lfloor>y1\<rfloor> = \<lfloor>y2\<rfloor>")
    case True
    with h show ?thesis by (auto simp: round_even_def Let_def)
  next
    case False
    with f have "\<lfloor>y1\<rfloor> + 1 \<le> \<lfloor>y2\<rfloor>" by simp
    then show ?thesis using round_even_floor [of y1] round_even_floor [of y2] by linarith
  qed
qed

lemma round_even_error: "\<bar>of_int (round_even y) - y\<bar> \<le> 1 / 2"
proof -
  have "of_int \<lfloor>y\<rfloor> \<le> y" "y < of_int \<lfloor>y\<rfloor> + 1" by linarith+
  then show ?thesis by (auto simp: round_even_def Let_def abs_le_iff)
qed

lemma ulp_pos: "0 < ulp q"
  by (simp add: ulp_def pow2_pos)

lemma round53_le_grid: "q \<le> of_int k * ulp q \<Longrightarrow> round53 q \<le> of_int k * ulp q"
proof -
  assume "q \<le> of_int k * ulp q"
  then have "q / ulp q \<le> of_int k" using ulp_pos [of q] by (simp add: field_simps)
  then have "round_even (q / ulp q) \<le> k"
    using round_even_mono [of "q / ulp q" "of_int k"] by (simp add: round_even_of_int)
  then have "(of_int (round_even (q / ulp q)) :: rat) \<le> of_int k" by (simp only: of_int_le_iff)
  then show ?thesis using ulp_pos [of q] by (simp add: round53_def)
qed

lemma round53_ge_grid: "of_int k * ulp q \<le> q \<Longrightarrow> of_int k * ulp q \<le> round53 q"
proof -
  assume "of_int k * ulp q \<le> q"
  then have "of_int k \<le> q / ulp q" using ulp_pos [of q] by (simp add: field_simps)
  then have "k \<le> round_even (q / ulp q)"
    using round_even_mono [of "of_int k" "q / ulp q"] by (simp add: round_even_of_int)
  then have "(of_int k :: rat) \<le> of_int (round_even (q / ulp q))" by (simp only: of_int_le_iff)
  then show ?thesis using ulp_pos [of q] by (simp add: round53_def)
qed

lemma round53_nonneg: "0 \<le> q \<Longrightarrow> 0 \<le> round53 q"
  using round53_ge_grid [of 0 q] by simp

lemma round53_exact: "q = of_int k * ulp q \<Longrightarrow> round53 q = q"
  using round53_ge_grid [of k q] round53_le_grid [of q k] by simp

lemma pow2_numeral: "pow2 (numeral k) = 2 ^ numeral k"
  by (simp add: pow2_def)

lemma pow2_split: "pow2 (e + 1) = of_int (2 ^ 53) * pow2 (e - 52)"
  using pow2_add [of 53 "e - 52"] by (simp add: pow2_numeral add.commute)

lemma pow2_split': "pow2 e = of_int (2 ^ 52) * pow2 (e - 52)"
  using pow2_add [of 52 "e - 52"] by (simp add: pow2_numeral)

lemma round53_upper:
  assumes "0 < q"
  shows "round53 q \<le> pow2 (max (ilog2 q) (- 1022) + 1)"
proof -
  define e where "e = max (ilog2 q) (- 1022)"
  have "q < pow2 (ilog2 q + 1)" using ilog2_bounds [OF assms] by simp
  also have "\<dots> \<le> pow2 (e + 1)" by (rule pow2_mono) (simp add: e_def)
  finally have "q \<le> pow2 (e + 1)" by simp
  then have "q \<le> of_int (2 ^ 53) * ulp q"
    by (simp only: ulp_def pow2_split [of e, symmetric] e_def [symmetric])
  then have "round53 q \<le> of_int (2 ^ 53) * ulp q" by (rule round53_le_grid)
  then show ?thesis by (simp only: ulp_def pow2_split [of e, symmetric] e_def [symmetric])
qed

lemma round53_lower:
  assumes "0 < q" and "- 1022 \<le> ilog2 q"
  shows "pow2 (ilog2 q) \<le> round53 q"
proof -
  have u: "ulp q = pow2 (ilog2 q - 52)" using assms(2) by (simp add: ulp_def max_def)
  have "pow2 (ilog2 q) \<le> q" using ilog2_bounds [OF assms(1)] by simp
  then have "of_int (2 ^ 52) * ulp q \<le> q"
    by (simp only: u pow2_split' [of "ilog2 q", symmetric])
  then have "of_int (2 ^ 52) * ulp q \<le> round53 q" by (rule round53_ge_grid)
  then show ?thesis by (simp only: u pow2_split' [of "ilog2 q", symmetric])
qed

lemma round53_mono:
  assumes "0 < q1" and "q1 \<le> q2"
  shows "round53 q1 \<le> round53 q2"
proof -
  define e1 where "e1 = max (ilog2 q1) (- 1022)"
  define e2 where "e2 = max (ilog2 q2) (- 1022)"
  have q2: "0 < q2" using assms by simp
  have le: "e1 \<le> e2" using ilog2_mono [OF assms] by (simp add: e1_def e2_def max_def)
  show ?thesis
  proof (cases "e1 = e2")
    case True
    then have u: "ulp q1 = ulp q2" by (simp add: ulp_def e1_def e2_def)
    have "q1 / ulp q2 \<le> q2 / ulp q2"
      using assms(2) ulp_pos [of q2] by (simp add: divide_right_mono)
    then have "round_even (q1 / ulp q2) \<le> round_even (q2 / ulp q2)" by (rule round_even_mono)
    then have "(of_int (round_even (q1 / ulp q2)) :: rat) \<le> of_int (round_even (q2 / ulp q2))"
      by (simp only: of_int_le_iff)
    then show ?thesis using ulp_pos [of q2] by (simp add: round53_def u)
  next
    case False
    with le have lt: "e1 < e2" by simp
    then have i2: "e2 = ilog2 q2" "- 1022 \<le> ilog2 q2"
      by (simp_all add: e1_def e2_def max_def split: if_splits)
    have "round53 q1 \<le> pow2 (e1 + 1)"
      using round53_upper [OF assms(1)] by (simp add: e1_def)
    also have "\<dots> \<le> pow2 e2" using lt by (intro pow2_mono) simp
    also have "\<dots> \<le> round53 q2" using round53_lower [OF q2 i2(2)] by (simp add: i2(1))
    finally show ?thesis .
  qed
qed

lemma round53_error: "\<bar>round53 q - q\<bar> \<le> ulp q / 2"
proof -
  have "\<bar>of_int (round_even (q / ulp q)) - q / ulp q\<bar> * ulp q \<le> 1 / 2 * ulp q"
    using round_even_error [of "q / ulp q"] ulp_pos [of q] by (simp add: mult_right_mono)
  moreover have "\<bar>of_int (round_even (q / ulp q)) - q / ulp q\<bar> * ulp q = \<bar>round53 q - q\<bar>"
  proof -
    have "\<bar>of_int (round_even (q / ulp q)) - q / ulp q\<bar> * ulp q =
        \<bar>(of_int (round_even (q / ulp q)) - q / ulp q) * ulp q\<bar>"
      using ulp_pos [of q] by (simp add: abs_mult)
    also have "(of_int (round_even (q / ulp q)) - q / ulp q) * ulp q = round53 q - q"
      using ulp_pos [of q] by (simp add: round53_def field_simps)
    finally show ?thesis .
  qed
  ultimately show ?thesis by simp
qed

lemma ilog2_1: "ilog2 1 = 0"
  by (simp add: ilog2_def compute_floorlog)

lemma round53_nat_exact:
  assumes "0 < n" and "n \<le> 2 ^ 53"
  shows "round53 (of_nat n) = of_nat n"
proof -
  define q :: rat where "q = of_nat n"
  have q: "1 \<le> q" "0 < q" using assms(1) by (simp_all add: q_def)
  have qle: "q \<le> 2 ^ 53"
  proof -
    have "(of_nat n :: rat) \<le> of_nat (2 ^ 53)" using assms(2) by (simp only: of_nat_le_iff)
    then show ?thesis by (simp add: q_def)
  qed
  have e0: "0 \<le> ilog2 q" using ilog2_mono [of 1 q] q by (simp add: ilog2_1)
  then have u: "ulp q = pow2 (ilog2 q - 52)" by (simp add: ulp_def max_def)
  show ?thesis
  proof (cases "q = 2 ^ 53")
    case True
    have "pow2 53 \<le> q" "q < pow2 54" using True by (simp_all add: pow2_numeral)
    then have "pow2 (ilog2 q) < pow2 54" "pow2 53 < pow2 (ilog2 q + 1)"
      using ilog2_bounds [OF q(2)] by linarith+
    then have "ilog2 q = 53"
      by (simp add: pow2_less_iff)
    then have "ulp q = 2" by (simp add: u pow2_def)
    then have "q = of_int (2 ^ 52) * ulp q" using True by simp
    then show ?thesis unfolding q_def [symmetric] by (rule round53_exact)
  next
    case False
    with qle have "q < pow2 53" by (simp add: pow2_numeral)
    then have e: "ilog2 q < 53" using ilog2_le [OF q(2)] by simp
    define d where "d = nat (52 - ilog2 q)"
    have "ilog2 q - 52 = - int d" using e by (simp add: d_def)
    then have ud: "ulp q = 1 / 2 ^ d" by (simp only: u pow2_neg_nat)
    have "q = of_int (int n * 2 ^ d) * ulp q" unfolding ud by (simp add: q_def)
    then show ?thesis unfolding q_def [symmetric] by (rule round53_exact)
  qed
qed

lemma fl_nat_exact: "n \<le> 2 ^ 53 \<Longrightarrow> fl (of_nat n) = Fin (of_nat n)"
proof (cases "n = 0")
  case True
  then show ?thesis by (simp add: fl_def)
next
  case False
  assume h: "n \<le> 2 ^ 53"
  then have "(of_nat n :: rat) \<le> of_nat (2 ^ 53)" by (simp only: of_nat_le_iff)
  then have "(of_nat n :: rat) < 2 ^ 1024" by simp
  with False h show ?thesis by (simp add: fl_def round53_nat_exact)
qed

lemma fl_bounded:
  assumes "0 \<le> q" and "q \<le> b" and "round53 b = b" and "b < 2 ^ 1024"
  shows "\<exists>x. fl q = Fin x \<and> 0 \<le> x \<and> x \<le> b \<and> \<bar>x - q\<bar> \<le> ulp q / 2"
proof (cases "q = 0")
  case True
  then show ?thesis using assms ulp_pos [of 0] by (simp add: fl_def)
next
  case False
  with assms have q: "0 < q" by simp
  have "round53 q \<le> b" using round53_mono [OF q assms(2)] assms(3) by simp
  moreover have "0 \<le> round53 q" using q by (simp add: round53_nonneg)
  ultimately show ?thesis
    using q assms(4) round53_error [of q] by (simp add: fl_def)
qed

lemma round53_1: "round53 1 = 1"
  using round53_nat_exact [of 1] by simp

lemma round53_100: "round53 100 = 100"
  using round53_nat_exact [of 100] by simp

lemma number_round53: "0 < n \<Longrightarrow> fl (of_nat n) = Fin (of_nat n) \<Longrightarrow> round53 (of_nat n) = of_nat n"
  by (simp add: fl_def Let_def split: if_splits)

lemma ulp_le:
  assumes "0 < q" and "q < pow2 (e + 1)" and "- 1022 \<le> e"
  shows "ulp q \<le> pow2 (e - 52)"
proof -
  have "ilog2 q < e + 1" using ilog2_le [OF assms(1,2)] .
  then have "max (ilog2 q) (- 1022) - 52 \<le> e - 52" using assms(3) by simp
  then show ?thesis unfolding ulp_def by (rule pow2_mono)
qed

text \<open>The value of the expression (present / total) * 100.\<close>
lemma percentage_value:
  fixes p a :: nat
  defines "P \<equiv> (of_nat p :: rat)" and "A \<equiv> (of_nat a :: rat)"
  assumes rp: "fl P = Fin P" and nz: "p + a \<noteq> 0"
  shows "num_add (Fin P) (Fin A) \<noteq> Fin 0 \<and>
         (\<exists>y. num_mul (num_div (Fin P) (num_add (Fin P) (Fin A))) (Fin 100) = Fin y
              \<and> 0 \<le> y \<and> y \<le> 100
              \<and> (p + a \<le> 2 ^ 53 \<longrightarrow> \<bar>y - 100 * P / (P + A)\<bar> \<le> 164 / 2 ^ 53))"
proof -
  define T where "T = round53 (P + A)"
  have pa: "1 \<le> P + A"
  proof -
    have "1 \<le> p + a" using nz by linarith
    then have "(of_nat 1 :: rat) \<le> of_nat (p + a)" by (simp only: of_nat_le_iff)
    then show ?thesis by (simp add: P_def A_def)
  qed
  have T1: "1 \<le> T"
    using round53_mono [of 1 "P + A"] pa by (simp add: T_def round53_1)
  have P0: "0 \<le> P" "0 \<le> A" by (simp_all add: P_def A_def)
  have TP: "P \<le> T"
  proof (cases "p = 0")
    case True
    then show ?thesis using T1 by (simp add: P_def)
  next
    case False
    then have "round53 P = P" using rp unfolding P_def by (intro number_round53) simp_all
    moreover have "0 < P" using False by (simp add: P_def)
    ultimately show ?thesis using round53_mono [of P "P + A"] P0 by (simp add: T_def)
  qed
  have tot: "fl (P + A) = (if 2 ^ 1024 \<le> T then PosInf else Fin T)"
    using pa by (simp add: fl_def Let_def T_def)
  have fl0: "fl 0 = Fin 0" by (simp add: fl_def)
  show ?thesis
  proof (cases "(2::rat) ^ 1024 \<le> T")
    case True
    have "\<not> p + a \<le> 2 ^ 53"
    proof
      assume s: "p + a \<le> 2 ^ 53"
      then have "round53 (of_nat (p + a)) = of_nat (p + a)"
        using nz by (intro round53_nat_exact) simp_all
      then have "T = of_nat (p + a)" by (simp add: T_def P_def A_def)
      moreover have "(of_nat (p + a) :: rat) \<le> of_nat (2 ^ 53)" using s by (simp only: of_nat_le_iff)
      ultimately show False using True by simp
    qed
    with True show ?thesis by (simp add: tot fl0)
  next
    case False
    have Tpos: "0 < T" using T1 by simp
    define q where "q = P / T"
    have q: "0 \<le> q" "q \<le> 1" using P0 TP Tpos by (simp_all add: q_def)
    obtain x where x: "fl q = Fin x" "0 \<le> x" "x \<le> 1" "\<bar>x - q\<bar> \<le> ulp q / 2"
      using fl_bounded [OF q(1) q(2)] by (auto simp: round53_1)
    have x100: "0 \<le> x * 100" "x * 100 \<le> 100" using x by simp_all
    obtain y where y: "fl (x * 100) = Fin y" "0 \<le> y" "y \<le> 100"
        "\<bar>y - x * 100\<bar> \<le> ulp (x * 100) / 2"
      using fl_bounded [OF x100(1) x100(2)] by (auto simp: round53_100)
    have val: "num_mul (num_div (Fin P) (num_add (Fin P) (Fin A))) (Fin 100) = Fin y"
      using False Tpos by (simp add: tot x(1) [unfolded q_def] y(1))
    have acc: "\<bar>y - 100 * P / (P + A)\<bar> \<le> 164 / 2 ^ 53" if s: "p + a \<le> 2 ^ 53"
    proof -
      have "round53 (of_nat (p + a)) = of_nat (p + a)"
        using nz s by (intro round53_nat_exact) simp_all
      then have Teq: "T = P + A" by (simp add: T_def P_def A_def)
      have e1: "\<bar>x - q\<bar> \<le> 1 / 2 ^ 53"
      proof (cases "q = 0")
        case True
        then show ?thesis using x(1) by (simp add: fl_def)
      next
        case False
        then have "0 < q" using q by simp
        moreover have "q < pow2 (0 + 1)" using q by (simp add: pow2_def)
        ultimately have "ulp q \<le> pow2 (0 - 52)" by (rule ulp_le) simp
        then have "ulp q \<le> 1 / 2 ^ 52" by (simp add: pow2_def)
        then show ?thesis using x(4) by simp
      qed
      have e2: "\<bar>y - x * 100\<bar> \<le> 1 / 2 ^ 47"
      proof (cases "x = 0")
        case True
        then show ?thesis using y(1) by (simp add: fl_def)
      next
        case False
        then have "0 < x * 100" using x by simp
        moreover have "x * 100 < pow2 (6 + 1)" using x by (simp add: pow2_def)
        ultimately have "ulp (x * 100) \<le> pow2 (6 - 52)" by (rule ulp_le) simp
        then have "ulp (x * 100) \<le> 1 / 2 ^ 46" by (simp add: pow2_def)
        then show ?thesis using y(4) by simp
      qed
      have "100 * P / (P + A) = 100 * q" by (simp add: q_def Teq)
      moreover have "\<bar>y - 100 * q\<bar> \<le> \<bar>y - x * 100\<bar> + 100 * \<bar>x - q\<bar>"
      proof -
        have "y - 100 * q = (y - x * 100) + 100 * (x - q)" by (simp add: algebra_simps)
        then have "\<bar>y - 100 * q\<bar> \<le> \<bar>y - x * 100\<bar> + \<bar>100 * (x - q)\<bar>"
          by (simp only: abs_triangle_ineq)
        moreover have "\<bar>100 * (x - q)\<bar> = 100 * \<bar>x - q\<bar>"
          by (simp only: abs_mult abs_numeral)
        ultimately show ?thesis by (simp only:)
      qed
      ultimately show ?thesis using e1 e2 by simp
    qed
    show ?thesis using False Tpos val y acc by (auto simp: tot)
  qed
qed

lemma fixed2_near:
  fixes y :: rat
  assumes "0 \<le> y" and "y \<le> 100"
  defines "n \<equiv> nat \<lfloor>y * 100 + 1 / 2\<rfloor>"
  shows "n \<le> 10000 \<and> \<bar>of_nat n / 100 - y\<bar> \<le> 1 / 200"
proof -
  define z where "z = y * 100 + 1 / 2"
  have z: "0 \<le> z" "z < 10001" using assms(1,2) by (simp_all add: z_def)
  have f: "of_int \<lfloor>z\<rfloor> \<le> z" "z < of_int \<lfloor>z\<rfloor> + 1" by linarith+
  have f0: "0 \<le> \<lfloor>z\<rfloor>" using z by simp
  have "\<lfloor>z\<rfloor> \<le> 10000" using z(2) by (simp add: floor_le_iff)
  then have "nat \<lfloor>z\<rfloor> \<le> nat 10000" by (rule nat_mono)
  then have n1: "n \<le> 10000" by (simp add: n_def z_def [symmetric])
  have "(of_nat n :: rat) = of_int \<lfloor>z\<rfloor>" using f0 by (simp add: n_def z_def [symmetric])
  then have "of_nat n \<le> y * 100 + 1 / 2" "y * 100 + 1 / 2 < of_nat n + 1"
    using f by (simp_all add: z_def)
  then have "\<bar>of_nat n / 100 - y\<bar> \<le> 1 / 200" by linarith
  with n1 show ?thesis by simp
qed

section \<open>The percentage\<close>

lemma fixed2_eval:
  assumes "of_nat n \<le> x * 100 + 1 / 2" and "x * 100 + 1 / 2 < of_nat n + 1"
  shows "fixed2 x = digits (n div 100) @ js ''.'' @ [digit (n div 10 mod 10), digit (n mod 10)]"
proof -
  have "\<lfloor>x * 100 + 1 / 2\<rfloor> = int n"
    using assms by (simp add: floor_eq_iff)
  then show ?thesis by (simp add: fixed2_shape)
qed

lemma fl_3: "fl 3 = Fin 3"
  by (simp add: fl_eval)

lemma percentage_2_1: "calculatePercentage 2 1 = js ''66.67''"
proof -
  have t: "num_add (Fin 2) (Fin 1) = Fin 3"
    by (simp add: fl_eval)
  have q: "num_div (Fin 2) (Fin 3) = Fin (6004799503160661 / 9007199254740992)"
    by (simp add: fl_eval)
  have m: "num_mul (Fin (6004799503160661 / 9007199254740992)) (Fin 100) =
      Fin (2345624805922133 / 35184372088832)"
    by (simp add: fl_eval)
  have f: "fixed2 (2345624805922133 / 35184372088832) = js ''66.67''"
    by (subst fixed2_eval [of 6667]) (simp_all add: digits_lt10 digits_ge10 js_simps digit_def)
  have "calculatePercentage 2 1 =
      toFixed2 (num_mul (num_div (Fin 2) (num_add (Fin 2) (Fin 1))) (Fin 100))"
    by (simp add: calculatePercentage_def Let_def fl_3)
  also have "\<dots> = toFixed2 (Fin (2345624805922133 / 35184372088832))"
    by (simp only: t q m)
  also have "\<dots> = js ''66.67''"
    by (simp add: f)
  finally show ?thesis .
qed

lemma fl_160: "fl 160 = Fin 160"
  by (simp add: fl_eval)

lemma percentage_23_137: "calculatePercentage 23 137 = js ''14.37''"
proof -
  have t: "num_add (Fin 23) (Fin 137) = Fin 160"
    by (simp add: fl_eval)
  have q: "num_div (Fin 23) (Fin 160) = Fin (2589569785738035 / 18014398509481984)"
    by (simp add: fl_eval)
  have m: "num_mul (Fin (2589569785738035 / 18014398509481984)) (Fin 100) =
      Fin (8092405580431359 / 562949953421312)"
    by (simp add: fl_eval)
  have f: "fixed2 (8092405580431359 / 562949953421312) = js ''14.37''"
    by (subst fixed2_eval [of 1437]) (simp_all add: digits_lt10 digits_ge10 js_simps digit_def)
  have "calculatePercentage 23 137 =
      toFixed2 (num_mul (num_div (Fin 23) (num_add (Fin 23) (Fin 137))) (Fin 100))"
    by (simp add: calculatePercentage_def Let_def fl_160)
  also have "\<dots> = toFixed2 (Fin (8092405580431359 / 562949953421312))"
    by (simp only: t q m)
  also have "\<dots> = js ''14.37''"
    by (simp add: f)
  finally show ?thesis .
qed

lemma fixed2_exact_23_137: "fixed2 (100 * 23 / (23 + 137)) = js ''14.38''"
  by (subst fixed2_eval [of 1438]) (simp_all add: digits_lt10 digits_ge10 js_simps digit_def)

lemma percentage_0_0: "calculatePercentage 0 0 = js ''0.00''"
  by (simp add: calculatePercentage_def fl_def)

text \<open>
  Claim C3, as amended. The two arguments are numbers holding non-negative integers.
  When their sum is zero the result is \<open>0.00\<close>. Otherwise the expression
  \<open>(present / total) * 100\<close>, evaluated in the arithmetic of numbers, has a finite
  value \<open>y\<close> between 0 and 100, and the result is \<open>y\<close>, not the exact quotient,
  rounded to two decimal places and written in fixed-point notation: with \<open>n\<close> the
  integer nearest to \<open>100 * y\<close> (the larger one of two), the result is the digits of
  \<open>n div 100\<close>, a point, and the two digits of \<open>n mod 100\<close>; \<open>n\<close> is at most 10000
  and \<open>n / 100\<close> differs from \<open>y\<close> by at most 0.005. When the total is at most
  \<open>2 ^ 53\<close> (so that the sum is exact), \<open>y\<close> differs from the exact quotient
  \<open>100 * present / total\<close> by at most \<open>164 / 2 ^ 53\<close>, the rounding error of the
  division and of the multiplication. The arguments (3, 1) give \<open>75.00\<close> and (2, 1)
  give \<open>66.67\<close>.
\<close>

theorem calculatePercentage_spec:
  fixes p a :: nat
  defines "P \<equiv> (of_nat p :: rat)" and "A \<equiv> (of_nat a :: rat)"
  assumes "fl P = Fin P" and "fl A = Fin A"
  shows "(p + a = 0 \<longrightarrow> calculatePercentage p a = js ''0.00'')
       \<and> (p + a \<noteq> 0 \<longrightarrow>
            (\<exists>y. num_mul (num_div (Fin P) (num_add (Fin P) (Fin A))) (Fin 100) = Fin y
               \<and> 0 \<le> y \<and> y \<le> 100
               \<and> (let n = nat \<lfloor>y * 100 + 1 / 2\<rfloor> in
                    calculatePercentage p a =
                      digits (n div 100) @ js ''.'' @ [digit (n div 10 mod 10), digit (n mod 10)]
                    \<and> n \<le> 10000 \<and> \<bar>of_nat n / 100 - y\<bar> \<le> 1 / 200)
               \<and> (p + a \<le> 2 ^ 53 \<longrightarrow> \<bar>y - 100 * P / (P + A)\<bar> \<le> 164 / 2 ^ 53)))
       \<and> calculatePercentage 3 1 = js ''75.00''
       \<and> calculatePercentage 2 1 = js ''66.67''"
proof -
  have zero: "calculatePercentage p a = js ''0.00''" if "p + a = 0"
    using that percentage_0_0 by simp
  have nonzero: "\<exists>y. num_mul (num_div (Fin P) (num_add (Fin P) (Fin A))) (Fin 100) = Fin y
               \<and> 0 \<le> y \<and> y \<le> 100
               \<and> (let n = nat \<lfloor>y * 100 + 1 / 2\<rfloor> in
                    calculatePercentage p a =
                      digits (n div 100) @ js ''.'' @ [digit (n div 10 mod 10), digit (n mod 10)]
                    \<and> n \<le> 10000 \<and> \<bar>of_nat n / 100 - y\<bar> \<le> 1 / 200)
               \<and> (p + a \<le> 2 ^ 53 \<longrightarrow> \<bar>y - 100 * P / (P + A)\<bar> \<le> 164 / 2 ^ 53)"
    if nz: "p + a \<noteq> 0"
  proof -
    from percentage_value [of p a] assms(3) nz
    obtain y where t: "num_add (Fin P) (Fin A) \<noteq> Fin 0"
      and y: "num_mul (num_div (Fin P) (num_add (Fin P) (Fin A))) (Fin 100) = Fin y"
        "0 \<le> y" "y \<le> 100"
        "p + a \<le> 2 ^ 53 \<longrightarrow> \<bar>y - 100 * P / (P + A)\<bar> \<le> 164 / 2 ^ 53"
      unfolding P_def A_def by blast
    have "calculatePercentage p a = toFixed2 (Fin y)"
      using t y(1) unfolding P_def A_def calculatePercentage_def Let_def by (simp only: if_False)
    then have "calculatePercentage p a = fixed2 y" using y(2) by simp
    then have "let n = nat \<lfloor>y * 100 + 1 / 2\<rfloor> in
                    calculatePercentage p a =
                      digits (n div 100) @ js ''.'' @ [digit (n div 10 mod 10), digit (n mod 10)]
                    \<and> n \<le> 10000 \<and> \<bar>of_nat n / 100 - y\<bar> \<le> 1 / 200"
      using fixed2_near [OF y(2,3)] by (simp add: fixed2_shape Let_def)
    with y show ?thesis by blast
  qed
  show ?thesis using zero nonzero percentage_3_1 percentage_2_1 by blast
qed

theorem calculatePercentage_spec_witness:
  "fl (of_nat 2) = Fin (of_nat 2) \<and> fl (of_nat 1) = Fin (of_nat 1) \<and> (2::nat) + 1 \<noteq> 0
   \<and> calculatePercentage 2 1 = js ''66.67''"
  using calculatePercentage_spec [of 2 1] fl_nat_exact [of 2] fl_nat_exact [of 1]
  by simp

text \<open>
  Claim C3 as stated fails: it takes the result for the exact percentage rounded to two
  decimal places. With 23 sessions present and 137 absent the exact percentage is
  14.375, which rounds to \<open>14.38\<close>; the division and the multiplication of numbers
  give a value just below it, and the result is \<open>14.37\<close>.
\<close>

theorem calculatePercentage_not_exact:
  "calculatePercentage 23 137 = js ''14.37'' \<and>
   (100 * 23 / (23 + 137) :: rat) = 14375 / 1000 \<and>
   fixed2 (100 * 23 / (23 + 137)) = js ''14.38'' \<and>
   calculatePercentage 23 137 \<noteq> fixed2 (100 * 23 / (23 + 137))"
proof -
  have "js ''14.37'' \<noteq> js ''14.38''" by (simp add: js_simps)
  then show ?thesis
    by (simp only: percentage_23_137 fixed2_exact_23_137) simp
qed

section \<open>Search\<close>

lemma startsWith_prefix: "startsWith s q = prefix q s"
  by (induction s q rule: startsWith.induct) auto

lemma str_includes_sublist: "str_includes s q = sublist q s"
  by (induction s) (auto simp: startsWith_prefix sublist_Cons_right)

lemma toLowerCase_empty: "toLowerCase U [] = []"
  by (simp add: toLowerCase_def)

text \<open>
  Claim C9. For every subject list and query, \<open>filteredSubjects\<close> is the source list
  filtered by one test: the lower-cased query occurs as a contiguous run in the lower-cased
  name. The result is therefore a subsequence of the list, in the list's order; the empty
  query keeps every subject; the subject named \<open>Math\<close> matches the query \<open>ma\<close>. The
  function is total and has no result but the list: it cannot fail, and the list it reads
  is a value that nothing changes.
\<close>

theorem filteredSubjects_spec:
  "filteredSubjects U data q =
     filter (\<lambda>s. sublist (toLowerCase U q) (toLowerCase U (subject.name s))) (subjects data)
   \<and> subseq (filteredSubjects U data q) (subjects data)
   \<and> filteredSubjects U data [] = subjects data
   \<and> filteredSubjects U
        \<lparr>profile.name = n,
         subjects = [\<lparr>subject.name = js ''Math'', present = p, absent = a\<rparr>]\<rparr> (js ''ma'')
       = [\<lparr>subject.name = js ''Math'', present = p, absent = a\<rparr>]"
proof -
  have m: "toLowerCase U (js ''Math'') = js ''math''" "toLowerCase U (js ''ma'') = js ''ma''"
    by (simp_all add: toLowerCase_def js_simps lower_ascii_def)
  show ?thesis
    by (simp add: filteredSubjects_def str_includes_sublist toLowerCase_empty m)
       (simp add: js_simps)
qed

section \<open>Deleting a subject\<close>

lemma delete_at_enumerate:
  "map snd (filter (\<lambda>(j, _). int j \<noteq> i) (enumerate n xs)) =
     (if int n \<le> i \<and> i < int (n + length xs)
      then take (nat i - n) xs @ drop (Suc (nat i - n)) xs else xs)"
proof (induction xs arbitrary: n)
  case Nil
  then show ?case by simp
next
  case (Cons x xs)
  show ?case
  proof (cases "int n = i")
    case True
    then have "map snd (filter (\<lambda>(j, _). int j \<noteq> i) (enumerate (Suc n) xs)) = xs"
      using Cons.IH [of "Suc n"] by auto
    with True show ?thesis by auto
  next
    case False
    show ?thesis
    proof (cases "int n < i \<and> i < int (n + length (x # xs))")
      case True
      then have "nat i - n = Suc (nat i - Suc n)" by auto
      with True False show ?thesis
        using Cons.IH [of "Suc n"] by auto
    next
      case out: False
      with False show ?thesis
        using Cons.IH [of "Suc n"] by auto
    qed
  qed
qed

text \<open>
  Claim C8. For an index within the bounds of the subject list, once the user has
  confirmed with \<open>Delete\<close> and the save has succeeded, the list is one shorter, it is the
  old list without the element at the index, every element before the index is where it
  was and every later one has moved down by one, each unchanged; the profile's name is
  unchanged.
\<close>

theorem deleteSubject_removes:
  assumes "0 \<le> i" and "i < int (length (subjects (attendanceData st)))"
  shows "let old = subjects (attendanceData st);
             new = subjects (attendanceData (deleteSubject i Delete True st))
         in Suc (length new) = length old
          \<and> new = take (nat i) old @ drop (Suc (nat i)) old
          \<and> (\<forall>j < nat i. new ! j = old ! j)
          \<and> (\<forall>j. nat i \<le> j \<and> j < length new \<longrightarrow> new ! j = old ! Suc j)
          \<and> profile.name (attendanceData (deleteSubject i Delete True st)) =
              profile.name (attendanceData st)"
proof -
  define old where "old = subjects (attendanceData st)"
  define new where "new = subjects (attendanceData (deleteSubject i Delete True st))"
  have n: "new = take (nat i) old @ drop (Suc (nat i)) old"
    using assms unfolding new_def old_def
    by (simp add: deleteSubject_def saveData_def Let_def delete_at_enumerate)
  have l: "nat i < length old"
    using assms by (simp add: old_def nat_less_iff)
  have "Suc (length new) = length old"
    using l by (simp add: n)
  moreover have "\<forall>j < nat i. new ! j = old ! j"
    using l by (simp add: n nth_append)
  moreover have "\<forall>j. nat i \<le> j \<and> j < length new \<longrightarrow> new ! j = old ! Suc j"
    using l by (auto simp: n nth_append min_def)
  moreover have "profile.name (attendanceData (deleteSubject i Delete True st)) =
      profile.name (attendanceData st)"
    by (simp add: deleteSubject_def saveData_def Let_def)
  ultimately show ?thesis
    using n by (simp add: Let_def old_def new_def)
qed

theorem deleteSubject_removes_witness:
  "(0::int) \<le> 1
   \<and> (1::int) < int (length [\<lparr>subject.name = js ''Math'', present = 3, absent = 1\<rparr>,
          \<lparr>subject.name = js ''Art'', present = 0, absent = 2\<rparr>,
          \<lparr>subject.name = js ''Law'', present = 5, absent = 0\<rparr>])
   \<and> subjects (attendanceData (deleteSubject 1 Delete True
        \<lparr>attendanceData = \<lparr>profile.name = js ''Asha'', subjects =
           [\<lparr>subject.name = js ''Math'', present = 3, absent = 1\<rparr>,
            \<lparr>subject.name = js ''Art'', present = 0, absent = 2\<rparr>,
            \<lparr>subject.name = js ''Law'', present = 5, absent = 0\<rparr>]\<rparr>,
         showNamePrompt = False, isLoading = False, alerts = [], storage = None\<rparr>))
     = [\<lparr>subject.name = js ''Math'', present = 3, absent = 1\<rparr>,
        \<lparr>subject.name = js ''Law'', present = 5, absent = 0\<rparr>]"
  using deleteSubject_removes [of 1
        "\<lparr>attendanceData = \<lparr>profile.name = js ''Asha'', subjects =
           [\<lparr>subject.name = js ''Math'', present = 3, absent = 1\<rparr>,
            \<lparr>subject.name = js ''Art'', present = 0, absent = 2\<rparr>,
            \<lparr>subject.name = js ''Law'', present = 5, absent = 0\<rparr>]\<rparr>,
         showNamePrompt = False, isLoading = False, alerts = [], storage = None\<rparr>"]
  by (simp add: Let_def)

section \<open>Adding a subject\<close>

lemma list_ex_set: "list_ex P xs = (\<exists>x\<in>set xs. P x)"
  by (simp add: list_ex_iff)

text \<open>
  Claim C4. \<open>handleAddSubject\<close> rejects the input, with an alert and no other change of
  the state, when the trimmed input is empty, and when some existing subject's name and
  the trimmed input are equal after \<open>toLowerCase\<close> (the comparison the source makes: the
  input is trimmed, the stored names are compared as they are). Otherwise, when the save
  succeeds, the new state holds the old subjects in their order followed by the one new
  subject, whose name is the trimmed input and whose counters are zero, and the storage
  holds its serialisation; when the save fails, the old list is set again and the failure
  is alerted.
\<close>

theorem handleAddSubject_spec:
  fixes U :: "jsstring \<Rightarrow> jsstring" and nm :: jsstring and st :: "subject profile app_state"
  defines "old \<equiv> attendanceData st"
  defines "dup \<equiv> \<exists>s\<in>set (subjects old).
              toLowerCase U (subject.name s) = toLowerCase U (trim nm)"
  shows "(trim nm = [] \<longrightarrow>
            handleAddSubject U nm ok st =
              st\<lparr>alerts := alerts st @ [Alert ''Error'' ''Please enter a subject name'']\<rparr>)
       \<and> (trim nm \<noteq> [] \<and> dup \<longrightarrow>
            handleAddSubject U nm ok st =
              st\<lparr>alerts := alerts st @ [Alert ''Error'' ''This subject already exists'']\<rparr>)
       \<and> (trim nm \<noteq> [] \<and> \<not> dup \<longrightarrow>
            handleAddSubject U nm True st =
              st\<lparr>attendanceData := old\<lparr>subjects := subjects old @
                     [\<lparr>subject.name = trim nm, present = 0, absent = 0\<rparr>]\<rparr>,
                 storage := Some (JSON_stringify (old\<lparr>subjects := subjects old @
                     [\<lparr>subject.name = trim nm, present = 0, absent = 0\<rparr>]\<rparr>))\<rparr>
          \<and> handleAddSubject U nm False st =
              st\<lparr>alerts := alerts st @
                     [Alert ''Error'' ''Failed to save data. Please try again.'']\<rparr>)"
  by (simp add: handleAddSubject_def saveData_def Let_def list_ex_set old_def dup_def)

lemma trim_examples:
  "trim (js '' '') = []" "trim (js '' math '') = js ''math''" "trim (js '' Art '') = js ''Art''"
  by (simp_all add: trim_def js_simps isWhiteSpace_def)

lemma lower_examples:
  "toLowerCase U (js ''Math'') = js ''math''" "toLowerCase U (js ''math'') = js ''math''"
  "toLowerCase U (js ''Art'') = js ''art''"
  by (simp_all add: toLowerCase_def js_simps lower_ascii_def)

theorem handleAddSubject_spec_witness:
  "handleAddSubject (\<lambda>s. s) (js '' '') True
       \<lparr>attendanceData = \<lparr>profile.name = js ''Asha'', subjects =
           [\<lparr>subject.name = js ''Math'', present = 3, absent = 1\<rparr>]\<rparr>,
         showNamePrompt = False, isLoading = False, alerts = [], storage = None\<rparr>
     = \<lparr>attendanceData = \<lparr>profile.name = js ''Asha'', subjects =
           [\<lparr>subject.name = js ''Math'', present = 3, absent = 1\<rparr>]\<rparr>,
         showNamePrompt = False, isLoading = False,
         alerts = [Alert ''Error'' ''Please enter a subject name''], storage = None\<rparr>
   \<and> handleAddSubject (\<lambda>s. s) (js '' math '') True
       \<lparr>attendanceData = \<lparr>profile.name = js ''Asha'', subjects =
           [\<lparr>subject.name = js ''Math'', present = 3, absent = 1\<rparr>]\<rparr>,
         showNamePrompt = False, isLoading = False, alerts = [], storage = None\<rparr>
     = \<lparr>attendanceData = \<lparr>profile.name = js ''Asha'', subjects =
           [\<lparr>subject.name = js ''Math'', present = 3, absent = 1\<rparr>]\<rparr>,
         showNamePrompt = False, isLoading = False,
         alerts = [Alert ''Error'' ''This subject already exists''], storage = None\<rparr>
   \<and> subjects (attendanceData (handleAddSubject (\<lambda>s. s) (js '' Art '') True
       \<lparr>attendanceData = \<lparr>profile.name = js ''Asha'', subjects =
           [\<lparr>subject.name = js ''Math'', present = 3, absent = 1\<rparr>]\<rparr>,
         showNamePrompt = False, isLoading = False, alerts = [], storage = None\<rparr>))
     = [\<lparr>subject.name = js ''Math'', present = 3, absent = 1\<rparr>,
        \<lparr>subject.name = js ''Art'', present = 0, absent = 0\<rparr>]"
  using handleAddSubject_spec [of "js '' ''" "\<lambda>s. s" True
       "\<lparr>attendanceData = \<lparr>profile.name = js ''Asha'', subjects =
           [\<lparr>subject.name = js ''Math'', present = 3, absent = 1\<rparr>]\<rparr>,
         showNamePrompt = False, isLoading = False, alerts = [], storage = None\<rparr>"]
    handleAddSubject_spec [of "js '' math ''" "\<lambda>s. s" True
       "\<lparr>attendanceData = \<lparr>profile.name = js ''Asha'', subjects =
           [\<lparr>subject.name = js ''Math'', present = 3, absent = 1\<rparr>]\<rparr>,
         showNamePrompt = False, isLoading = False, alerts = [], storage = None\<rparr>"]
    handleAddSubject_spec [of "js '' Art ''" "\<lambda>s. s" True
       "\<lparr>attendanceData = \<lparr>profile.name = js ''Asha'', subjects =
           [\<lparr>subject.name = js ''Math'', present = 3, absent = 1\<rparr>]\<rparr>,
         showNamePrompt = False, isLoading = False, alerts = [], storage = None\<rparr>"]
  by (simp add: trim_examples lower_examples) (simp add: js_simps)

section \<open>Export\<close>

lemma join_Cons: "ys \<noteq> [] \<Longrightarrow> join sep (x # ys) = x @ sep @ join sep ys"
  by (cases ys) simp_all

text \<open>
  Claim C5. With no subject \<open>exportToCSV\<close> raises the alert \<open>No data to export\<close> and
  produces no text. Otherwise the text it produces is the header line and one line per
  subject, in the profile's order, joined by single line feeds (code unit \<open>0x0A\<close>) with
  none after the last line; a subject's line is its name, its two counters in decimal
  digits and its percentage followed by \<open>%\<close>, separated by commas. The counters are taken
  to be safe integers, which \<open>Number::toString\<close> prints as their decimal digits. For the
  one subject \<open>Math\<close> with 3 and 1 the text is the header, a line feed and
  \<open>Math,3,1,75.00%\<close>.
\<close>

theorem exportToCSV_spec:
  fixes st :: "subject profile app_state"
  defines "ss \<equiv> subjects (attendanceData st)"
  assumes safe: "\<forall>s\<in>set ss. isSafeInteger (present s) \<and> isSafeInteger (absent s)"
  shows "(ss = [] \<longrightarrow> exportToCSV st = Inl (Alert ''Error'' ''No data to export''))
       \<and> (ss \<noteq> [] \<longrightarrow> exportToCSV st =
            Inr (join [0x0A]
              (js ''Subject,Classes Attended,Classes Missed,Attendance Percentage'' #
               map (\<lambda>s. subject.name s @ js '','' @ digits (present s) @ js '','' @
                         digits (absent s) @ js '','' @
                         calculatePercentage (present s) (absent s) @ js ''%'') ss)))"
proof -
  have "csvRow = (\<lambda>s. subject.name s @ js '','' @ digits (present s) @ js '','' @
                         digits (absent s) @ js '','' @
                         calculatePercentage (present s) (absent s) @ js ''%'')"
    by (rule ext) (simp add: csvRow_def numberToString_def)
  then show ?thesis
    by (simp add: exportToCSV_def csvContent_def headers_def join_Cons ss_def)
qed

theorem exportToCSV_spec_witness:
  "isSafeInteger 3 \<and> isSafeInteger 1
   \<and> exportToCSV \<lparr>attendanceData = \<lparr>profile.name = js ''Asha'', subjects =
       [\<lparr>subject.name = js ''Math'', present = 3, absent = 1\<rparr>]\<rparr>,
     showNamePrompt = False, isLoading = False, alerts = [], storage = None\<rparr>
   = Inr (js ''Subject,Classes Attended,Classes Missed,Attendance Percentage'' @ [0x0A] @
          js ''Math,3,1,75.00%'')"
  using exportToCSV_spec [of "\<lparr>attendanceData = \<lparr>profile.name = js ''Asha'', subjects =
       [\<lparr>subject.name = js ''Math'', present = 3, absent = 1\<rparr>]\<rparr>,
     showNamePrompt = False, isLoading = False, alerts = [], storage = None\<rparr>"]
  by (simp add: isSafeInteger_def percentage_3_1 [unfolded One_nat_def] digits_lt10)
     (simp add: js_simps digit_def)

section \<open>Recording attendance: out of bounds, and a failed save\<close>

lemma increment_safe: "n < 2 ^ 53 \<Longrightarrow> increment n = Suc n"
proof -
  assume "n < 2 ^ 53"
  then have "fl (of_nat (Suc n)) = Fin (of_nat (Suc n))" by (intro fl_nat_exact) simp
  then have "fl (of_nat n + 1) = Fin (of_nat (Suc n))" by (simp add: add.commute)
  then show ?thesis by (simp add: increment_def)
qed

text \<open>
  Claim C2, as amended. For every index outside the bounds of the subject list (negative,
  or at least the length), \<open>updateAttendance\<close> throws a \<open>TypeError\<close> that nothing
  catches, before it changes anything: the store of subject objects, the profile, the
  storage and the alerts are as they were. The source has no bounds check and no
  \<open>IndexError\<close>.
\<close>

theorem updateAttendance_out_of_bounds:
  assumes "index < 0 \<or> int (length (subjects (attendanceData st))) \<le> index"
  shows "updateAttendance index isPresent write_ok h st = (Some TypeError, h, st)"
  using assms by (simp add: updateAttendance_def)

theorem updateAttendance_out_of_bounds_witness:
  "((- 1 :: int) < 0 \<or> int (length (subjects (attendanceData
        \<lparr>attendanceData = \<lparr>profile.name = js ''Asha'', subjects = [0 :: nat]\<rparr>,
         showNamePrompt = False, isLoading = False, alerts = [], storage = None\<rparr>))) \<le> - 1)
   \<and> updateAttendance (- 1) True True
        (\<lambda>r. \<lparr>subject.name = js ''Math'', present = 3, absent = 1\<rparr>)
        \<lparr>attendanceData = \<lparr>profile.name = js ''Asha'', subjects = [0]\<rparr>,
         showNamePrompt = False, isLoading = False, alerts = [], storage = None\<rparr>
     = (Some TypeError, (\<lambda>r. \<lparr>subject.name = js ''Math'', present = 3, absent = 1\<rparr>),
        \<lparr>attendanceData = \<lparr>profile.name = js ''Asha'', subjects = [0]\<rparr>,
         showNamePrompt = False, isLoading = False, alerts = [], storage = None\<rparr>)"
  using updateAttendance_out_of_bounds [of "- 1"
        "\<lparr>attendanceData = \<lparr>profile.name = js ''Asha'', subjects = [0 :: nat]\<rparr>,
         showNamePrompt = False, isLoading = False, alerts = [], storage = None\<rparr>" True True
        "\<lambda>r. \<lparr>subject.name = js ''Math'', present = 3, absent = 1\<rparr>"]
  by simp

text \<open>
  Claim C2 as stated fails: with one subject and the index 1 the handler is left by an
  uncaught \<open>TypeError\<close>, and no alert reports a typed error.
\<close>

theorem updateAttendance_throws:
  "fst (updateAttendance 1 True True
        (\<lambda>r. \<lparr>subject.name = js ''Math'', present = 3, absent = 1\<rparr>)
        \<lparr>attendanceData = \<lparr>profile.name = js ''Asha'', subjects = [0]\<rparr>,
         showNamePrompt = False, isLoading = False, alerts = [], storage = None\<rparr>)
     = Some TypeError
   \<and> alerts (snd (snd (updateAttendance 1 True True
        (\<lambda>r. \<lparr>subject.name = js ''Math'', present = 3, absent = 1\<rparr>)
        \<lparr>attendanceData = \<lparr>profile.name = js ''Asha'', subjects = [0]\<rparr>,
         showNamePrompt = False, isLoading = False, alerts = [], storage = None\<rparr>))) = []"
  by (simp add: updateAttendance_def)

text \<open>
  After a failed save the \<open>catch\<close> branch of \<open>saveData\<close> sets the profile object of
  before the call again. Its array holds the same subject objects, and one of them has
  been changed in place.
\<close>
lemma updateAttendance_failed_save:
  assumes "0 \<le> index" and "index < int (length (subjects (attendanceData st)))"
  defines "r \<equiv> subjects (attendanceData st) ! nat index"
  shows "updateAttendance index True False h st =
           (None, h(r := (h r)\<lparr>present := increment (present (h r))\<rparr>),
            st\<lparr>alerts := alerts st @ [Alert ''Error'' ''Failed to save data. Please try again.'']\<rparr>)"
  using assms by (simp add: updateAttendance_def saveData_def Let_def)

text \<open>
  Claim C1 fails on the code. The profile with the one subject \<open>Math\<close>, no session
  recorded, is in the storage; \<open>updateAttendance(0, true)\<close> runs and the save fails. The
  failure is alerted, the state holds the profile object of before the call and the
  storage still holds the old snapshot with the counter 0, but the profile read through
  the store shows the counter 1: the increment stays visible.
\<close>

theorem updateAttendance_failed_save_keeps_increment:
  "(let h = (\<lambda>r. \<lparr>subject.name = js ''Math'', present = 0, absent = 0\<rparr>);
        p = \<lparr>profile.name = js ''Asha'', subjects = [0 :: nat]\<rparr>;
        st = \<lparr>attendanceData = p, showNamePrompt = False, isLoading = False, alerts = [],
              storage = Some (JSON_stringify (snapshot h p))\<rparr>;
        (e, h', st') = updateAttendance 0 True False h st
    in e = None
     \<and> alerts st' = [Alert ''Error'' ''Failed to save data. Please try again.'']
     \<and> attendanceData st' = p
     \<and> storage st' = Some (JSON_stringify (snapshot h p))
     \<and> map present (subjects (snapshot h p)) = [0]
     \<and> map present (subjects (snapshot h' (attendanceData st'))) = [1])"
  by (simp add: updateAttendance_failed_save increment_safe snapshot_def Let_def)

section \<open>String literals: what is written is what is read\<close>

lemma unat_small: "n < 65536 \<Longrightarrow> unat (of_nat n :: code_unit) = n"
  by (simp add: unat_of_nat)

lemma hexValue_hexdigit: "d < 16 \<Longrightarrow> hexValue (hexdigit d) = Some d"
proof -
  assume h: "d < 16"
  define w where "w = hexdigit d"
  have u: "unat w = (if d < 10 then 48 + d else 87 + d)"
  proof (cases "d < 10")
    case True
    then have "unat (of_nat (48 + d) :: code_unit) = 48 + d" by (intro unat_small) simp
    then show ?thesis using True by (simp add: w_def hexdigit_def)
  next
    case False
    with h have "unat (of_nat (87 + d) :: code_unit) = 87 + d" by (intro unat_small) simp
    then show ?thesis using False by (simp add: w_def hexdigit_def)
  qed
  show ?thesis
    unfolding w_def [symmetric] using h by (simp add: hexValue_def word_le_nat_alt u)
qed

lemma hex_digits_sum:
  "((n div 4096 * 16 + n div 256 mod 16) * 16 + n div 16 mod 16) * 16 + n mod 16 = (n::nat)"
proof -
  have "n div 256 div 16 = n div 4096" "n div 16 div 16 = n div 256"
    by (simp_all add: div_mult2_eq [symmetric])
  then have a: "n div 4096 * 16 + n div 256 mod 16 = n div 256"
    and b: "n div 256 * 16 + n div 16 mod 16 = n div 16"
    using div_mult_mod_eq [of "n div 256" 16] div_mult_mod_eq [of "n div 16" 16] by simp_all
  have c: "n div 16 * 16 + n mod 16 = n" by simp
  show ?thesis by (simp only: a b c)
qed

lemma hex4_unicodeEscape: "hex4 (drop 2 (unicodeEscape c)) = Some c"
proof -
  define n where "n = unat c"
  have n: "n < 65536" using unsigned_less [of c] by (simp add: n_def)
  have d: "n div 4096 < 16" "n div 256 mod 16 < 16" "n div 16 mod 16 < 16" "n mod 16 < 16"
    using n by simp_all
  have "(of_nat (((n div 4096 * 16 + n div 256 mod 16) * 16 + n div 16 mod 16) * 16
      + n mod 16) :: code_unit) = c"
    by (simp only: hex_digits_sum) (simp add: n_def)
  then show ?thesis
    using d by (simp add: hex4_def unicodeEscape_def hexValue_hexdigit n_def [symmetric]
        del: of_nat_add of_nat_mult)
qed

lemma hex4_digits:
  "hex4 [hexdigit (unat c div 4096), hexdigit (unat c div 256 mod 16),
         hexdigit (unat c div 16 mod 16), hexdigit (unat c mod 16)] = Some c"
  using hex4_unicodeEscape [of c] by (simp add: unicodeEscape_def)

lemma parseChars_quoteUnit:
  "parseChars (quoteUnit c @ t) = map_option (\<lambda>(s, r). (c # s, r)) (parseChars t)"
proof -
  consider (short) "c = 0x08 \<or> c = 0x09 \<or> c = 0x0A \<or> c = 0x0C \<or> c = 0x0D \<or> c = 0x22 \<or> c = 0x5C"
    | (uni) "\<not> (c = 0x08 \<or> c = 0x09 \<or> c = 0x0A \<or> c = 0x0C \<or> c = 0x0D \<or> c = 0x22 \<or> c = 0x5C)"
        "c < 0x20 \<or> isLeadingSurrogate c \<or> isTrailingSurrogate c"
    | (plain) "\<not> (c = 0x08 \<or> c = 0x09 \<or> c = 0x0A \<or> c = 0x0C \<or> c = 0x0D \<or> c = 0x22 \<or> c = 0x5C)"
        "\<not> (c < 0x20 \<or> isLeadingSurrogate c \<or> isTrailingSurrogate c)"
    by blast
  then show ?thesis
  proof cases
    case short
    then show ?thesis by (auto simp: quoteUnit_def unescape_def)
  next
    case uni
    then have "quoteUnit c = unicodeEscape c" by (simp add: quoteUnit_def)
    then show ?thesis by (simp add: unicodeEscape_def hex4_digits)
  next
    case plain
    then show ?thesis by (simp add: quoteUnit_def)
  qed
qed

lemma surrogate_plain:
  assumes "isLeadingSurrogate c \<or> isTrailingSurrogate c"
  shows "c \<noteq> 0x22" "c \<noteq> 0x5C" "\<not> c < 0x20"
  using assms
  by (auto simp: isLeadingSurrogate_def isTrailingSurrogate_def word_less_nat_alt word_le_nat_alt)

lemma parseChars_quoteBody:
  "parseChars (quoteBody s @ 0x22 # rest) = Some (s, rest)"
proof (induction s rule: quoteBody.induct)
  case 1
  show ?case by simp
next
  case (2 c)
  show ?case by (simp add: parseChars_quoteUnit)
next
  case (3 c d ds)
  show ?case
  proof (cases "isLeadingSurrogate c \<and> isTrailingSurrogate d")
    case True
    then have sc: "isLeadingSurrogate c \<or> isTrailingSurrogate c"
      and sd: "isLeadingSurrogate d \<or> isTrailingSurrogate d" by simp_all
    show ?thesis
      using True 3 surrogate_plain [OF sc] surrogate_plain [OF sd] by simp
  next
    case False
    have q: "quoteBody (c # d # ds) = quoteUnit c @ quoteBody (d # ds)"
      by (simp only: quoteBody.simps False if_False)
    show ?thesis
      using "3.IH"(2) [OF False] by (simp only: q append_assoc parseChars_quoteUnit) simp
  qed
qed

section \<open>Number literals of the counters\<close>

lemma unat_digit: "d < 10 \<Longrightarrow> unat (digit d) = 48 + d"
  unfolding digit_def by (rule unat_small) simp

lemma isDigit_digit: "d < 10 \<Longrightarrow> isDigit (digit d)"
  by (simp add: isDigit_def word_le_nat_alt unat_digit)

lemma digits_all_digits: "list_all isDigit (digits n)"
proof (induction n rule: digits.induct)
  case (1 n)
  show ?case
  proof (cases "n < 10")
    case True
    then show ?thesis by (simp add: digits_lt10 isDigit_digit)
  next
    case False
    then show ?thesis using 1 by (simp add: digits_ge10 isDigit_digit)
  qed
qed

lemma decimal_Nil: "decimal [] = 0"
  by (simp add: decimal_def)

lemma decimal_snoc: "decimal (s @ [c]) = 10 * decimal s + (unat c - 48)"
  by (simp add: decimal_def)

lemma decimal_digits: "decimal (digits n) = n"
proof (induction n rule: digits.induct)
  case (1 n)
  show ?case
  proof (cases "n < 10")
    case True
    then show ?thesis by (simp add: digits_lt10 decimal_def unat_digit)
  next
    case False
    then show ?thesis using 1 by (simp add: digits_ge10 decimal_snoc unat_digit)
  qed
qed

lemma peek_append: "xs \<noteq> [] \<Longrightarrow> peek c (xs @ ys) = peek c xs"
  by (cases xs) (simp_all add: peek_def)

lemma digits_not_Nil: "digits n \<noteq> []"
  using length_digits_pos [of n] by auto

lemma digits_no_leading_zero: "0 < n \<Longrightarrow> \<not> peek 0x30 (digits n)"
proof (induction n rule: digits.induct)
  case (1 n)
  show ?case
  proof (cases "n < 10")
    case True
    have "digit n \<noteq> 0x30"
    proof
      assume e: "digit n = 0x30"
      have "unat (digit n) = 48 + n" using True by (rule unat_digit)
      with e have "48 + n = 48" by simp
      with "1.prems" show False by simp
    qed
    then show ?thesis using True by (simp add: digits_lt10 peek_def)
  next
    case False
    then have "0 < n div 10" by simp
    then have ih: "\<not> peek 0x30 (digits (n div 10))" by (rule "1.IH" [OF False])
    have dg: "digits n = digits (n div 10) @ [digit (n mod 10)]"
      using False by (simp add: digits_ge10)
    have "peek 0x30 (digits n) = peek 0x30 (digits (n div 10) @ [digit (n mod 10)])"
      by (rule arg_cong [OF dg])
    also have "\<dots> = peek 0x30 (digits (n div 10))"
      by (rule peek_append [OF digits_not_Nil])
    finally show ?thesis using ih by blast
  qed
qed

lemma digits_length1: "1 < length (digits n) \<Longrightarrow> 0 < n"
  by (cases "n = 0") (simp_all add: digits_lt10)

lemma peek_digits: "peek c (digits n @ r) = peek c (digits n)"
  by (rule peek_append [OF digits_not_Nil])

lemma digit_first: "peek c (digits n) \<Longrightarrow> isDigit c"
  using digits_all_digits [of n] by (cases "digits n") (simp_all add: peek_def)

lemma span_digits:
  assumes "r = [] \<or> \<not> isDigit (hd r)"
  shows "takeWhile isDigit (digits n @ r) = digits n" "dropWhile isDigit (digits n @ r) = r"
proof -
  have a: "\<forall>x\<in>set (digits n). isDigit x" using digits_all_digits [of n] by (simp add: list_all_iff)
  have b: "takeWhile isDigit r = []" "dropWhile isDigit r = r"
    using assms by (cases r, simp, simp)+
  show "takeWhile isDigit (digits n @ r) = digits n" using a b by (simp add: takeWhile_append2)
  show "dropWhile isDigit (digits n @ r) = r" using a b by (simp add: dropWhile_append2)
qed

lemma parseNumber_digits:
  assumes "peek 0x2C r \<or> peek 0x7D r"
  shows "parseNumber (digits n @ r) = Some (JNum (fl (of_nat n)), r)"
proof -
  obtain c r' where r: "r = c # r'" "c = 0x2C \<or> c = 0x7D"
    using assms by (cases r) (auto simp: peek_def)
  have nd: "\<not> isDigit c" using r(2) by (auto simp: isDigit_def)
  have "r = [] \<or> \<not> isDigit (hd r)" using nd r(1) by simp
  note sp = span_digits [OF this]
  have neg: "\<not> peek 0x2D (digits n @ r)"
    using digit_first [of "0x2D" n] by (auto simp: peek_digits isDigit_def)
  have lz: "\<not> (peek 0x30 (digits n) \<and> 1 < length (digits n))"
    using digits_no_leading_zero [of n] digits_length1 [of n] by blast
  have pk: "\<not> peek 0x2E r" "\<not> peek 0x65 r" "\<not> peek 0x45 r"
    using r by (auto simp: peek_def)
  have ne: "digits n \<noteq> []" by (rule digits_not_Nil)
  show ?thesis
    unfolding parseNumber_def Let_def
    using lz ne by (simp add: neg sp pk decimal_digits decimal_Nil)
qed

section \<open>The serialisation of a profile parses to its value\<close>

lemma js_punct:
  "js ''{'' = [0x7B]" "js ''}'' = [0x7D]" "js ''['' = [0x5B]" "js '']'' = [0x5D]"
  "js '':'' = [0x3A]" "js '','' = [0x2C]"
  by (simp_all add: js_simps)

lemma keys_distinct:
  "js ''name'' \<noteq> js ''present''" "js ''name'' \<noteq> js ''absent''"
  "js ''present'' \<noteq> js ''absent''" "js ''name'' \<noteq> js ''subjects''"
  by (simp_all add: js_simps)

lemma skipSpace_Cons: "\<not> isJSONSpace c \<Longrightarrow> skipSpace (c # cs) = c # cs"
  by (simp add: skipSpace_def)

lemma isDigit_unat: "isDigit c \<longleftrightarrow> 48 \<le> unat c \<and> unat c \<le> 57"
  by (simp add: isDigit_def word_le_nat_alt)

lemma digit_not_other:
  assumes "isDigit c"
  shows "\<not> isJSONSpace c" "c \<noteq> 0x7B" "c \<noteq> 0x5B" "c \<noteq> 0x22" "c \<noteq> 0x74" "c \<noteq> 0x66"
    "c \<noteq> 0x6E"
  using assms by (auto simp: isDigit_unat isJSONSpace_def)

lemma parseValue_digits:
  assumes "peek 0x2C r \<or> peek 0x7D r"
  shows "parseValue (Suc k) (digits n @ r) = Some (JNum (fl (of_nat n)), r)"
proof -
  obtain d ds where dd: "digits n = d # ds" using digits_not_Nil [of n] by (cases "digits n") auto
  have "isDigit d" using digits_all_digits [of n] by (simp add: dd)
  note nd = digit_not_other [OF this]
  have "parseValue (Suc k) (d # ds @ r) = parseNumber (d # ds @ r)"
    using nd by (simp add: skipSpace_Cons js_simps)
  then show ?thesis using parseNumber_digits [OF assms, of n] by (simp add: dd)
qed

lemma parseValue_string:
  "parseValue (Suc k) (quoteJSONString s @ r) = Some (JStr s, r)"
  by (simp add: quoteJSONString_def skipSpace_Cons isJSONSpace_def parseChars_quoteBody)

lemma parseMembers_key:
  "parseMembers (Suc k) (quoteJSONString key @ 0x3A # r) =
     (case parseValue k r of
        None \<Rightarrow> None
      | Some (v, r2) \<Rightarrow>
          (case skipSpace r2 of
             [] \<Rightarrow> None
           | d # r3 \<Rightarrow>
               if d = 0x2C then map_option (\<lambda>(ms, r'). ((key, v) # ms, r')) (parseMembers k r3)
               else if d = 0x7D then Some ([(key, v)], r3)
               else None))"
  by (simp add: quoteJSONString_def skipSpace_Cons isJSONSpace_def parseChars_quoteBody)

lemma skipSpace_quote: "skipSpace (quoteJSONString s @ r) = quoteJSONString s @ r"
  by (simp add: quoteJSONString_def skipSpace_Cons isJSONSpace_def)

lemma peek_quote: "peek c (quoteJSONString s @ r) = (c = 0x22)"
  by (auto simp: quoteJSONString_def peek_def)

lemma fl_safe: "isSafeInteger n \<Longrightarrow> fl (of_nat n) = Fin (of_nat n)"
  by (rule fl_nat_exact) (simp add: isSafeInteger_def)

lemma object_subject:
  "object [(js ''name'', a), (js ''present'', b), (js ''absent'', c)] =
     JObj [(js ''name'', a), (js ''present'', b), (js ''absent'', c)]"
  using keys_distinct by (simp add: object_def)

lemma object_profile:
  "object [(js ''name'', a), (js ''subjects'', b)] =
     JObj [(js ''name'', a), (js ''subjects'', b)]"
  using keys_distinct by (simp add: object_def)

lemma parseValue_object:
  "\<not> peek 0x7D (skipSpace cs) \<Longrightarrow>
     parseValue (Suc n) (0x7B # cs) = map_option (\<lambda>(ms, r). (object ms, r)) (parseMembers n cs)"
  by (simp add: skipSpace_Cons isJSONSpace_def)

lemma parseValue_array:
  "\<not> peek 0x5D (skipSpace cs) \<Longrightarrow>
     parseValue (Suc n) (0x5B # cs) = map_option (\<lambda>(vs, r). (JArr vs, r)) (parseElements n cs)"
  by (simp add: skipSpace_Cons isJSONSpace_def)

lemma parseValue_empty_array: "parseValue (Suc n) (0x5B # 0x5D # r) = Some (JArr [], r)"
  by (simp add: skipSpace_Cons isJSONSpace_def peek_def)

declare parseValue.simps [simp del] parseMembers.simps [simp del] parseElements.simps [simp del]

lemma parseValue_subject:
  assumes "isSafeInteger (present s)" and "isSafeInteger (absent s)"
  shows "parseValue (Suc (Suc (Suc (Suc (Suc k))))) (stringifySubject s @ r) =
           Some (subjectValue s, r)"
proof -
  have m3: "parseMembers (Suc (Suc k))
      (quoteJSONString (js ''absent'') @ 0x3A # digits (absent s) @ 0x7D # r) =
      Some ([(js ''absent'', JNum (Fin (of_nat (absent s))))], r)"
    by (simp add: parseMembers_key parseValue_digits peek_def fl_safe assms skipSpace_Cons
        isJSONSpace_def)
  have m2: "parseMembers (Suc (Suc (Suc k)))
      (quoteJSONString (js ''present'') @ 0x3A # digits (present s) @ 0x2C #
       quoteJSONString (js ''absent'') @ 0x3A # digits (absent s) @ 0x7D # r) =
      Some ([(js ''present'', JNum (Fin (of_nat (present s)))),
             (js ''absent'', JNum (Fin (of_nat (absent s))))], r)"
  proof -
    have v: "parseValue (Suc (Suc k)) (digits (present s) @ 0x2C #
        quoteJSONString (js ''absent'') @ 0x3A # digits (absent s) @ 0x7D # r) =
        Some (JNum (Fin (of_nat (present s))), 0x2C #
          quoteJSONString (js ''absent'') @ 0x3A # digits (absent s) @ 0x7D # r)"
      using parseValue_digits [of "0x2C #
          quoteJSONString (js ''absent'') @ 0x3A # digits (absent s) @ 0x7D # r" "Suc k" "present s"]
      by (simp add: peek_def fl_safe assms)
    show ?thesis
      by (simp add: parseMembers_key [of "Suc (Suc k)"] v skipSpace_Cons isJSONSpace_def m3)
  qed
  have m1: "parseMembers (Suc (Suc (Suc (Suc k))))
      (quoteJSONString (js ''name'') @ 0x3A # quoteJSONString (subject.name s) @ 0x2C #
       quoteJSONString (js ''present'') @ 0x3A # digits (present s) @ 0x2C #
       quoteJSONString (js ''absent'') @ 0x3A # digits (absent s) @ 0x7D # r) =
      Some ([(js ''name'', JStr (subject.name s)),
             (js ''present'', JNum (Fin (of_nat (present s)))),
             (js ''absent'', JNum (Fin (of_nat (absent s))))], r)"
    by (simp add: parseMembers_key [of "Suc (Suc (Suc k))"] parseValue_string skipSpace_Cons
        isJSONSpace_def m2)
  show ?thesis
    by (simp add: stringifySubject_def js_punct numberToString_def parseValue_object
        skipSpace_quote peek_quote m1 object_subject subjectValue_def)
qed

lemma parseValue_subject_fuel:
  assumes "isSafeInteger (present s)" and "isSafeInteger (absent s)" and "5 \<le> n"
  shows "parseValue n (stringifySubject s @ r) = Some (subjectValue s, r)"
proof -
  obtain k where "n = 5 + k" using assms(3) le_Suc_ex by blast
  then have "n = Suc (Suc (Suc (Suc (Suc k))))" by simp
  then show ?thesis using parseValue_subject [OF assms(1,2), of k r] by simp
qed

lemma parseElements_subjects:
  assumes "ss \<noteq> []"
    and "\<forall>s\<in>set ss. isSafeInteger (present s) \<and> isSafeInteger (absent s)"
    and "length ss + 5 \<le> f"
  shows "parseElements f (join [0x2C] (map stringifySubject ss) @ 0x5D # r) =
           Some (map subjectValue ss, r)"
  using assms
proof (induction ss arbitrary: f rule: induct_list012)
  case 1
  then show ?case by simp
next
  case (2 x)
  then obtain n where f: "f = Suc n" and n: "5 \<le> n" by (cases f) auto
  have "parseValue n (stringifySubject x @ 0x5D # r) = Some (subjectValue x, 0x5D # r)"
    using 2 n by (intro parseValue_subject_fuel) auto
  then show ?case
    by (simp add: f parseElements.simps skipSpace_Cons isJSONSpace_def)
next
  case (3 x y zs)
  then obtain n where f: "f = Suc n" and n: "length (y # zs) + 5 \<le> n" by (cases f) auto
  let ?rest = "join [0x2C] (map stringifySubject (y # zs)) @ 0x5D # r"
  have v: "parseValue n (stringifySubject x @ 0x2C # ?rest) = Some (subjectValue x, 0x2C # ?rest)"
    using 3 n by (intro parseValue_subject_fuel) auto
  have ih: "parseElements n ?rest = Some (map subjectValue (y # zs), r)"
    using 3 n by (intro "3.IH"(2)) auto
  have "parseElements f (stringifySubject x @ 0x2C # ?rest) =
          Some (subjectValue x # map subjectValue (y # zs), r)"
    unfolding f using ih by (simp only: parseElements.simps v)
      (simp add: skipSpace_Cons isJSONSpace_def)
  then show ?case by simp
qed

lemma length_join_ge: "\<forall>x\<in>set xs. x \<noteq> [] \<Longrightarrow> length xs \<le> length (join sep xs) + 1"
proof (induction sep xs rule: join.induct)
  case (1 sep)
  show ?case by simp
next
  case (2 sep x)
  show ?case by simp
next
  case (3 sep x y ys)
  have "length (y # ys) \<le> length (join sep (y # ys)) + 1"
    using "3.prems" by (intro "3.IH") simp
  then show ?case using "3.prems" by (cases x) simp_all
qed

lemma stringifySubject_not_Nil: "stringifySubject s \<noteq> []"
  by (simp add: stringifySubject_def js_punct)

lemma length_JSON_stringify: "length (subjects p) + 9 \<le> 2 * length (JSON_stringify p) + 2"
proof -
  have "length (map stringifySubject (subjects p)) \<le>
          length (join [0x2C] (map stringifySubject (subjects p))) + 1"
    by (rule length_join_ge) (simp add: stringifySubject_not_Nil)
  then show ?thesis
    by (simp add: JSON_stringify_def js_punct quoteJSONString_def)
qed

lemma parseValue_profile:
  assumes "\<forall>s\<in>set (subjects p). isSafeInteger (present s) \<and> isSafeInteger (absent s)"
    and "length (subjects p) + 9 \<le> f"
  shows "parseValue f (JSON_stringify p) = Some (profileValue p, [])"
proof -
  obtain k where "f = 9 + k" using assms(2) le_Suc_ex
    by (metis add.commute add_leD2)
  then have f: "f = Suc (Suc (Suc (Suc k')))" and k: "length (subjects p) + 5 \<le> k'"
    if "k' = 5 + k" for k' using that assms(2) by simp_all
  define k' where "k' = 5 + k"
  note f = f [OF k'_def] and k = k [OF k'_def]
  let ?arr = "0x5B # join [0x2C] (map stringifySubject (subjects p)) @ [0x5D, 0x7D]"
  have a: "parseValue (Suc k') ?arr = Some (JArr (map subjectValue (subjects p)), [0x7D])"
  proof (cases "subjects p = []")
    case True
    then show ?thesis by (simp add: parseValue_empty_array)
  next
    case False
    then obtain x xs where xs: "subjects p = x # xs" by (cases "subjects p") auto
    have pk: "\<not> peek 0x5D (skipSpace (join [0x2C] (map stringifySubject (subjects p)) @ [0x5D, 0x7D]))"
      by (cases xs) (simp_all add: xs stringifySubject_def js_punct skipSpace_Cons isJSONSpace_def peek_def)
    have "parseElements k' (join [0x2C] (map stringifySubject (subjects p)) @ 0x5D # [0x7D]) =
            Some (map subjectValue (subjects p), [0x7D])"
      using False assms(1) k by (rule parseElements_subjects)
    then show ?thesis using pk by (simp add: parseValue_array)
  qed
  have m2: "parseMembers (Suc (Suc k')) (quoteJSONString (js ''subjects'') @ 0x3A # ?arr) =
      Some ([(js ''subjects'', JArr (map subjectValue (subjects p)))], [])"
    by (simp only: parseMembers_key a) (simp add: skipSpace_Cons isJSONSpace_def)
  have m1: "parseMembers (Suc (Suc (Suc k')))
      (quoteJSONString (js ''name'') @ 0x3A # quoteJSONString (profile.name p) @ 0x2C #
       quoteJSONString (js ''subjects'') @ 0x3A # ?arr) =
      Some ([(js ''name'', JStr (profile.name p)),
             (js ''subjects'', JArr (map subjectValue (subjects p)))], [])"
    by (simp only: parseMembers_key parseValue_string)
      (simp add: skipSpace_Cons isJSONSpace_def m2)
  show ?thesis
    unfolding f
    by (simp add: JSON_stringify_def js_punct parseValue_object skipSpace_quote peek_quote m1
        object_profile profileValue_def)
qed

lemma JSON_parse_stringify:
  assumes "\<forall>s\<in>set (subjects p). isSafeInteger (present s) \<and> isSafeInteger (absent s)"
  shows "JSON_parse (JSON_stringify p) = Some (profileValue p)"
  using parseValue_profile [OF assms length_JSON_stringify]
  by (simp add: JSON_parse_def skipSpace_def)

lemma JSON_stringify_not_Nil: "JSON_stringify p \<noteq> []"
  by (simp add: JSON_stringify_def js_punct)

lemma subjectValue_inject: "subjectValue s = subjectValue t \<longleftrightarrow> s = t"
  by (cases s, cases t) (auto simp: subjectValue_def)

lemma profileValue_inject: "profileValue p = profileValue q \<longleftrightarrow> p = q"
proof -
  have "inj subjectValue" by (rule injI) (simp add: subjectValue_inject)
  then have "map subjectValue xs = map subjectValue ys \<longleftrightarrow> xs = ys" for xs ys
    by (rule inj_map_eq_map)
  then show ?thesis by (cases p, cases q) (auto simp: profileValue_def)
qed

section \<open>Evaluating the parser\<close>

lemmas parse_fuel_numeral =
  parseValue.simps(2) [of "pred_numeral k", folded numeral_eq_Suc]
  parseElements.simps(2) [of "pred_numeral k", folded numeral_eq_Suc]
  parseMembers.simps(2) [of "pred_numeral k", folded numeral_eq_Suc]
  for k

lemmas parse_eval = JSON_parse_def parse_fuel_numeral js_simps skipSpace_def isJSONSpace_def
  peek_def parseNumber_def isDigit_def decimal_def object_def Let_def

lemma JSON_parse_brace: "JSON_parse (js ''{'') = None"
  by (simp add: parse_eval)

lemma JSON_parse_null: "JSON_parse (js ''null'') = Some JNull"
  by (simp add: parse_eval)

lemma JSON_parse_invalid_profile:
  \<open>JSON_parse (js ''{"name":"","subjects":[{"name":" A","present":-1,"absent":1.5}]}'') =
     Some (JObj [(js ''name'', JStr []),
                 (js ''subjects'', JArr [JObj [(js ''name'', JStr (js '' A'')),
                    (js ''present'', JNum (Fin (- 1))), (js ''absent'', JNum (Fin (3 / 2)))]])])\<close>
  by (simp add: parse_eval fl_eval)

section \<open>The bound on the calls of the parser\<close>

text \<open>
  Every value, every list of elements and every list of members that is parsed takes
  at least one code unit of the text. So a result found with any bound on the calls is
  found with the bound \<open>JSON.parse\<close> uses, and \<open>None\<close> from \<open>JSON_parse\<close> is never a
  lack of calls: it is a text that no bound reads as one value.
\<close>

lemma skipSpace_length: "skipSpace s = c # cs \<Longrightarrow> length cs < length s"
  using length_dropWhile_le [of isJSONSpace s] by (simp add: skipSpace_def)

lemma parseChars_length: "parseChars s = Some (str, r) \<Longrightarrow> length r < length s"
proof (induction s arbitrary: str r rule: parseChars.induct)
  case 1
  then show ?case by simp
next
  case (2 c cs)
  show ?case
  proof (cases "c = 0x22")
    case True
    then show ?thesis using "2.prems" by simp
  next
    case q: False
    show ?thesis
    proof (cases "c = 0x5C")
      case True
      then obtain e es where cs: "cs = e # es" using "2.prems" q by (cases cs) auto
      show ?thesis
      proof (cases "e = 0x75")
        case u: True
        then obtain w t where w: "hex4 (take 4 es) = Some w"
          and "parseChars (drop 4 es) = Some (t, r)"
          using "2.prems" q True cs by (auto split: option.split_asm)
        then have "length r < length (drop 4 es)"
          using "2.IH"(1) [OF q True cs u w] by simp
        then show ?thesis using cs by simp
      next
        case nu: False
        then obtain w t where w: "unescape e = Some w" and "parseChars es = Some (t, r)"
          using "2.prems" q True cs by (auto split: option.split_asm)
        then have "length r < length es"
          using "2.IH"(2) [OF q True cs nu w] by simp
        then show ?thesis using cs by simp
      qed
    next
      case b: False
      then obtain t where c: "\<not> c < 0x20" and "parseChars cs = Some (t, r)"
        using "2.prems" q by (auto split: if_split_asm)
      then have "length r < length cs" using "2.IH"(3) [OF q b c] by simp
      then show ?thesis by simp
    qed
  qed
qed


lemma parseNumber_length:
  assumes "parseNumber s = Some (v, r)"
  shows "length r < length s"
proof -
  define s1 where "s1 = (if peek 0x2D s then tl s else s)"
  define s2 where "s2 = dropWhile isDigit s1"
  define s3 where "s3 = (if peek 0x2E s2 then dropWhile isDigit (tl s2) else s2)"
  define hasExp where "hasExp = (peek 0x65 s3 \<or> peek 0x45 s3)"
  define s4 where "s4 = (if hasExp then tl s3 else s3)"
  define s5 where "s5 = (if hasExp \<and> (peek 0x2D s4 \<or> peek 0x2B s4) then tl s4 else s4)"
  define s6 where "s6 = (if hasExp then dropWhile isDigit s5 else s3)"
  have "\<exists>b w. (if takeWhile isDigit s1 = [] \<or> b then None else Some (JNum w, s6)) = Some (v, r)"
    using assms
    unfolding parseNumber_def Let_def s1_def s2_def s3_def s4_def s5_def s6_def hasExp_def
    by (intro exI)
  then have r: "r = s6" and ip: "takeWhile isDigit s1 \<noteq> []"
    by (auto split: if_split_asm)
  have "length s1 \<le> length s" by (simp add: s1_def)
  moreover have "length s2 < length s1"
  proof -
    have "length (takeWhile isDigit s1) + length s2 = length s1"
      unfolding s2_def by (metis takeWhile_dropWhile_id length_append)
    with ip show ?thesis by (cases "takeWhile isDigit s1") auto
  qed
  moreover have "length s3 \<le> length s2"
    using length_dropWhile_le [of isDigit "tl s2"] by (auto simp: s3_def)
  moreover have "length s4 \<le> length s3" by (simp add: s4_def)
  moreover have "length s5 \<le> length s4" by (simp add: s5_def)
  moreover have "length s6 \<le> length s3"
    using length_dropWhile_le [of isDigit s5] \<open>length s5 \<le> length s4\<close> \<open>length s4 \<le> length s3\<close>
    by (simp add: s6_def)
  ultimately show ?thesis using r by simp
qed

lemma parse_length:
  "(\<forall>s v r. parseValue n s = Some (v, r) \<longrightarrow> length r < length s) \<and>
   (\<forall>s vs r. parseElements n s = Some (vs, r) \<longrightarrow> length r < length s) \<and>
   (\<forall>s ms r. parseMembers n s = Some (ms, r) \<longrightarrow> length r < length s)"
proof (induction n)
  case 0
  show ?case by (simp add: parseValue.simps parseElements.simps parseMembers.simps)
next
  case (Suc n)
  from Suc have ihv: "\<And>s v r. parseValue n s = Some (v, r) \<Longrightarrow> length r < length s"
    and ihe: "\<And>s v r. parseElements n s = Some (v, r) \<Longrightarrow> length r < length s"
    and ihm: "\<And>s v r. parseMembers n s = Some (v, r) \<Longrightarrow> length r < length s"
    by blast+
  have v: "length r < length s" if p: "parseValue (Suc n) s = Some (v, r)" for s v r
    using p [unfolded parseValue.simps(2)]
    by (auto split: list.split_asm if_split_asm option.split_asm simp: peek_def
        dest!: skipSpace_length ihe ihm parseChars_length parseNumber_length)
  have e: "length r < length s" if p: "parseElements (Suc n) s = Some (v, r)" for s v r
    using p [unfolded parseElements.simps(2)]
    by (auto split: list.split_asm if_split_asm option.split_asm
        dest!: skipSpace_length ihv ihe)
  have m: "length r < length s" if p: "parseMembers (Suc n) s = Some (v, r)" for s v r
    using p [unfolded parseMembers.simps(2)]
    by (auto split: list.split_asm if_split_asm option.split_asm
        dest!: skipSpace_length ihv ihm parseChars_length)
  show ?case using v e m by blast
qed

lemma parse_enough:
  "(\<forall>s x F. parseValue n s = Some x \<and> 2 * length s + 1 \<le> F \<longrightarrow> parseValue F s = Some x) \<and>
   (\<forall>s x F. parseElements n s = Some x \<and> 2 * length s + 2 \<le> F \<longrightarrow>
      parseElements F s = Some x) \<and>
   (\<forall>s x F. parseMembers n s = Some x \<and> 2 * length s + 2 \<le> F \<longrightarrow>
      parseMembers F s = Some x)"
proof (induction n)
  case 0
  show ?case by (simp add: parseValue.simps parseElements.simps parseMembers.simps)
next
  case (Suc n)
  from Suc have ihv:
    "\<And>s x F. parseValue n s = Some x \<Longrightarrow> 2 * length s + 1 \<le> F \<Longrightarrow> parseValue F s = Some x"
    and ihe:
    "\<And>s x F. parseElements n s = Some x \<Longrightarrow> 2 * length s + 2 \<le> F \<Longrightarrow>
       parseElements F s = Some x"
    and ihm:
    "\<And>s x F. parseMembers n s = Some x \<Longrightarrow> 2 * length s + 2 \<le> F \<Longrightarrow>
       parseMembers F s = Some x"
    by blast+
  have lv: "length r < length s" if "parseValue n s = Some (v, r)" for s v r
    using that parse_length [of n] by blast
  have v: "parseValue F s = Some x"
    if p: "parseValue (Suc n) s = Some x" and F: "2 * length s + 1 \<le> F" for s x F
  proof -
    obtain k where k: "F = Suc k" and k2: "2 * length s \<le> k" using F by (cases F) auto
    show ?thesis
    proof (cases "skipSpace s")
      case Nil
      then show ?thesis using p by (simp add: parseValue.simps)
    next
      case (Cons c cs)
      have l: "length cs < length s" using Cons by (rule skipSpace_length)
      have e: "parseElements k cs = Some y" if "parseElements n cs = Some y" for y
        by (rule ihe [OF that]) (use l k2 in simp)
      have m: "parseMembers k cs = Some y" if "parseMembers n cs = Some y" for y
        by (rule ihm [OF that]) (use l k2 in simp)
      show ?thesis
        using p e m unfolding k parseValue.simps Cons
        by (auto split: if_split_asm)
    qed
  qed
  have e: "parseElements F s = Some x"
    if p: "parseElements (Suc n) s = Some x" and F: "2 * length s + 2 \<le> F" for s x F
  proof -
    obtain k where k: "F = Suc k" and k2: "2 * length s + 1 \<le> k" using F by (cases F) auto
    obtain v r where vr: "parseValue n s = Some (v, r)"
      using p by (auto simp: parseElements.simps split: option.split_asm)
    have vk: "parseValue k s = Some (v, r)" by (rule ihv [OF vr k2])
    have lr: "length r < length s" using vr by (rule lv)
    show ?thesis
    proof (cases "skipSpace r")
      case Nil
      then show ?thesis using p vr by (simp add: parseElements.simps)
    next
      case (Cons c cs)
      have l: "length cs < length r" using Cons by (rule skipSpace_length)
      have e': "parseElements k cs = Some y" if "parseElements n cs = Some y" for y
        by (rule ihe [OF that]) (use l lr k2 in simp)
      show ?thesis
        using p e' by (auto simp: k parseElements.simps vr vk Cons split: if_split_asm)
    qed
  qed
  have m: "parseMembers F s = Some x"
    if p: "parseMembers (Suc n) s = Some x" and F: "2 * length s + 2 \<le> F" for s x F
  proof -
    obtain k where k: "F = Suc k" and k2: "2 * length s + 1 \<le> k" using F by (cases F) auto
    obtain q cs where s: "skipSpace s = q # cs"
      using p by (cases "skipSpace s") (simp_all add: parseMembers.simps)
    have l1: "length cs < length s" using s by (rule skipSpace_length)
    have q: "q = 0x22" using p s by (simp add: parseMembers.simps split: if_split_asm)
    obtain key r where c: "parseChars cs = Some (key, r)"
      using p s q by (cases "parseChars cs") (auto simp: parseMembers.simps)
    have l2: "length r < length cs" using c by (rule parseChars_length)
    obtain c' r1 where r: "skipSpace r = c' # r1"
      using p s q c by (cases "skipSpace r") (simp_all add: parseMembers.simps)
    have l3: "length r1 < length r" using r by (rule skipSpace_length)
    have c': "c' = 0x3A" using p s q c r by (simp add: parseMembers.simps split: if_split_asm)
    obtain v r2 where vr: "parseValue n r1 = Some (v, r2)"
      using p s q c r c' by (cases "parseValue n r1") (auto simp: parseMembers.simps)
    have vk: "parseValue k r1 = Some (v, r2)"
      by (rule ihv [OF vr]) (use l1 l2 l3 k2 in simp)
    have l4: "length r2 < length r1" using vr by (rule lv)
    obtain d r3 where r2: "skipSpace r2 = d # r3"
      using p s q c r c' vr by (cases "skipSpace r2") (simp_all add: parseMembers.simps)
    have l5: "length r3 < length r2" using r2 by (rule skipSpace_length)
    have m': "parseMembers k r3 = Some y" if "parseMembers n r3 = Some y" for y
      by (rule ihm [OF that]) (use l1 l2 l3 l4 l5 k2 in simp)
    show ?thesis
      using p m' by (auto simp: k parseMembers.simps s c r vr vk r2 q c' split: if_split_asm)
  qed
  show ?case using v e m by blast
qed

lemma parseValue_fuel:
  assumes "parseValue n s = Some x"
  shows "parseValue (2 * length s + 2) s = Some x"
proof -
  have "parseValue F s = Some x" if "2 * length s + 1 \<le> F" for F
    using parse_enough [of n] assms that by blast
  then show ?thesis by simp
qed

lemma JSON_parse_fuel:
  assumes "parseValue n s = Some (v, r)"
  shows "JSON_parse s = (if skipSpace r = [] then Some v else None)"
  using parseValue_fuel [OF assms] by (simp add: JSON_parse_def)

lemma JSON_parse_None:
  assumes "JSON_parse s = None" and "parseValue n s = Some (v, r)"
  shows "skipSpace r \<noteq> []"
  using JSON_parse_fuel [OF assms(2)] assms(1) by (auto split: if_split_asm)

section \<open>Saving, then loading\<close>

text \<open>
  Claim C7. A profile whose counters are safe integers (the non-negative integers a
  number holds exactly, and all that counting up from zero reaches), with any strings as
  the names: after a save that succeeds, the storage holds the serialisation of the
  profile, and a start of the program that loads it ends with the value of that profile
  as its state: an object with the name and the subjects, each subject an object with
  its name and its two counters, equal to the saved ones field for field (it is the
  value of no other profile). No alert is raised and no name is asked for.
\<close>

theorem save_then_load:
  assumes "\<forall>s\<in>set (subjects p). isSafeInteger (present s) \<and> isSafeInteger (absent s)"
  shows "(let saved = saveData JSON_stringify True closure p st;
              loaded = loadData True (initialState (storage saved))
          in storage saved = Some (JSON_stringify p) \<and>
             attendanceData loaded = profileValue p \<and>
             (\<forall>q. attendanceData loaded = profileValue q \<longleftrightarrow> q = p) \<and>
             alerts loaded = [] \<and> \<not> showNamePrompt loaded \<and> \<not> isLoading loaded)"
  using JSON_parse_stringify [OF assms]
  by (auto simp: saveData_def loadData_def initialState_def Let_def JSON_stringify_not_Nil
      profileValue_inject)

theorem save_then_load_witness:
  "isSafeInteger 3 \<and> isSafeInteger 1 \<and>
   attendanceData (loadData True (initialState (storage
     (saveData JSON_stringify True \<lparr>profile.name = js ''Asha'', subjects = []\<rparr>
        \<lparr>profile.name = js ''Asha'',
         subjects = [\<lparr>subject.name = js ''Math'', present = 3, absent = 1\<rparr>]\<rparr>
        \<lparr>attendanceData = \<lparr>profile.name = js ''Asha'', subjects = []\<rparr>,
         showNamePrompt = False, isLoading = False, alerts = [], storage = None\<rparr>)))) =
     JObj [(js ''name'', JStr (js ''Asha'')),
           (js ''subjects'', JArr [JObj [(js ''name'', JStr (js ''Math'')),
              (js ''present'', JNum (Fin 3)), (js ''absent'', JNum (Fin 1))]])]"
proof -
  let ?p = "\<lparr>profile.name = js ''Asha'',
         subjects = [\<lparr>subject.name = js ''Math'', present = 3, absent = 1\<rparr>]\<rparr>"
  have safe: "\<forall>s\<in>set (subjects ?p). isSafeInteger (present s) \<and> isSafeInteger (absent s)"
    by (simp add: isSafeInteger_def)
  have "attendanceData (loadData True (initialState (storage
     (saveData JSON_stringify True \<lparr>profile.name = js ''Asha'', subjects = []\<rparr> ?p
        \<lparr>attendanceData = \<lparr>profile.name = js ''Asha'', subjects = []\<rparr>,
         showNamePrompt = False, isLoading = False, alerts = [], storage = None\<rparr>)))) =
     profileValue ?p"
    using save_then_load [OF safe] unfolding Let_def by blast
  then show ?thesis
    by (simp add: isSafeInteger_def profileValue_def subjectValue_def)
qed

section \<open>Starting the program\<close>

text \<open>
  Claim C6, as amended. \<open>loadData\<close> on the state the program starts with, whose
  profile has the empty name and no subjects. With no item in the storage (or the empty
  string) it asks for the name and leaves that profile. The text a save has written for
  a profile (with safe integers as counters) becomes the state as the value of that
  profile; any other text that parses becomes the state as parsed. When the read is
  rejected, or the item does not parse, it raises the alert
  \<open>Failed to load attendance data\<close> and leaves the empty profile it started with, but
  it does not ask for the name. In every case the loading ends.
\<close>

theorem loadData_spec:
  "(let st = initialState stored;
        empty = profileValue \<lparr>profile.name = [], subjects = []\<rparr>;
        failure = Alert ''Error'' ''Failed to load attendance data''
    in attendanceData st = empty \<and> \<not> showNamePrompt st \<and> alerts st = [] \<and>
       (stored = None \<or> stored = Some [] \<longrightarrow>
          loadData True st = st\<lparr>showNamePrompt := True, isLoading := False\<rparr>) \<and>
       (\<forall>p. (\<forall>s\<in>set (subjects p). isSafeInteger (present s) \<and> isSafeInteger (absent s)) \<and>
            stored = Some (JSON_stringify p) \<longrightarrow>
          loadData True st = st\<lparr>attendanceData := profileValue p, isLoading := False\<rparr>) \<and>
       (\<forall>data v. stored = Some data \<and> data \<noteq> [] \<and> JSON_parse data = Some v \<longrightarrow>
          loadData True st = st\<lparr>attendanceData := v, isLoading := False\<rparr>) \<and>
       (\<forall>data. stored = Some data \<and> data \<noteq> [] \<and> JSON_parse data = None \<longrightarrow>
          loadData True st = st\<lparr>alerts := [failure], isLoading := False\<rparr> \<and>
          attendanceData (loadData True st) = empty \<and> \<not> showNamePrompt (loadData True st)) \<and>
       loadData False st = st\<lparr>alerts := [failure], isLoading := False\<rparr> \<and>
       attendanceData (loadData False st) = empty \<and> \<not> showNamePrompt (loadData False st))"
  by (auto simp: loadData_def initialState_def Let_def JSON_stringify_not_Nil
      JSON_parse_stringify)

theorem loadData_spec_witness:
  "isSafeInteger 3 \<and> isSafeInteger 1 \<and>
   attendanceData (loadData True (initialState (Some (JSON_stringify
       \<lparr>profile.name = js ''Asha'',
        subjects = [\<lparr>subject.name = js ''Math'', present = 3, absent = 1\<rparr>]\<rparr>)))) =
     JObj [(js ''name'', JStr (js ''Asha'')),
           (js ''subjects'', JArr [JObj [(js ''name'', JStr (js ''Math'')),
              (js ''present'', JNum (Fin 3)), (js ''absent'', JNum (Fin 1))]])] \<and>
   loadData True (initialState None) =
     (initialState None)\<lparr>showNamePrompt := True, isLoading := False\<rparr> \<and>
   JSON_parse (js ''{'') = None \<and>
   loadData True (initialState (Some (js ''{''))) =
     (initialState (Some (js ''{'')))\<lparr>alerts := [Alert ''Error'' ''Failed to load attendance data''],
        isLoading := False\<rparr> \<and>
   attendanceData (loadData False (initialState (Some (js ''{'')))) =
     JObj [(js ''name'', JStr []), (js ''subjects'', JArr [])]"
proof -
  let ?p = "\<lparr>profile.name = js ''Asha'',
        subjects = [\<lparr>subject.name = js ''Math'', present = 3, absent = 1\<rparr>]\<rparr>"
  have safe: "\<forall>s\<in>set (subjects ?p). isSafeInteger (present s) \<and> isSafeInteger (absent s)"
    by (simp add: isSafeInteger_def)
  have "attendanceData (loadData True (initialState (Some (JSON_stringify ?p)))) = profileValue ?p"
    using loadData_spec [of "Some (JSON_stringify ?p)"] safe
    unfolding Let_def by (simp del: set_simps)
  then have a: "attendanceData (loadData True (initialState (Some (JSON_stringify ?p)))) =
     JObj [(js ''name'', JStr (js ''Asha'')),
           (js ''subjects'', JArr [JObj [(js ''name'', JStr (js ''Math'')),
              (js ''present'', JNum (Fin 3)), (js ''absent'', JNum (Fin 1))]])]"
    by (simp add: profileValue_def subjectValue_def)
  have ne: "js ''{'' \<noteq> []" by (simp add: js_simps)
  have b: "loadData True (initialState None) =
     (initialState None)\<lparr>showNamePrompt := True, isLoading := False\<rparr> \<and>
   JSON_parse (js ''{'') = None \<and>
   loadData True (initialState (Some (js ''{''))) =
     (initialState (Some (js ''{'')))\<lparr>alerts := [Alert ''Error'' ''Failed to load attendance data''],
        isLoading := False\<rparr> \<and>
   attendanceData (loadData False (initialState (Some (js ''{'')))) =
     JObj [(js ''name'', JStr []), (js ''subjects'', JArr [])]"
    using loadData_spec [of None] loadData_spec [of "Some (js ''{'')"]
    by (simp add: Let_def JSON_parse_brace ne initialState_def profileValue_def)
  show ?thesis using a b by (simp add: isSafeInteger_def)
qed

text \<open>
  Claim C6 as stated fails: a failed load does not end in the state a missing snapshot
  leads to. With no item the name is asked for; after a rejected read, or with the item
  \<open>{\<close> that does not parse, it is not. And the item \<open>null\<close> parses: it is installed in the
  place of the profile and no alert is raised.
\<close>

theorem loadData_failure_differs:
  "showNamePrompt (loadData True (initialState None)) \<and>
   \<not> showNamePrompt (loadData False (initialState None)) \<and>
   JSON_parse (js ''{'') = None \<and>
   \<not> showNamePrompt (loadData True (initialState (Some (js ''{'')))) \<and>
   JSON_parse (js ''null'') = Some JNull \<and>
   attendanceData (loadData True (initialState (Some (js ''null'')))) = JNull \<and>
   alerts (loadData True (initialState (Some (js ''null'')))) = []"
proof -
  have ne: "js ''{'' \<noteq> []" "js ''null'' \<noteq> []" by (simp_all add: js_simps)
  show ?thesis
    by (simp add: loadData_def initialState_def Let_def JSON_parse_brace JSON_parse_null ne)
qed

text \<open>
  Claim C10. Whatever the state before, a stored text that is not empty and parses is
  installed as \<open>attendanceData\<close> as parsed: no field is looked at, nothing else
  changes but the end of the loading. So a stored profile with an empty name, a subject
  name with a leading space, a negative counter and a fractional one is the state after
  the start.
\<close>

theorem loadData_installs_parsed_value:
  assumes "data \<noteq> []" and "JSON_parse data = Some v"
  shows "loadData True (st\<lparr>storage := Some data\<rparr>) =
           st\<lparr>storage := Some data, attendanceData := v, isLoading := False\<rparr>"
  using assms by (simp add: loadData_def Let_def)

theorem loadData_installs_parsed_value_witness:
  \<open>attendanceData (loadData True (initialState
      (Some (js ''{"name":"","subjects":[{"name":" A","present":-1,"absent":1.5}]}'')))) =
     JObj [(js ''name'', JStr []),
           (js ''subjects'', JArr [JObj [(js ''name'', JStr (js '' A'')),
              (js ''present'', JNum (Fin (- 1))), (js ''absent'', JNum (Fin (3 / 2)))]])]\<close>
proof -
  have ne: \<open>js ''{"name":"","subjects":[{"name":" A","present":-1,"absent":1.5}]}'' \<noteq> []\<close>
    by (simp add: js_simps)
  show ?thesis
    using loadData_installs_parsed_value [OF ne JSON_parse_invalid_profile,
        of "initialState None"]
    by (simp add: initialState_def)
qed

end
